theory Spec2Isabelle
  imports Main
begin

section \<open>JavaScript strings and the built-ins the source calls\<close>

text \<open>
  A JavaScript string is a sequence of UTF-16 code units. The two Unicode accidentals the
  source replaces, U+266D (flat sign) and U+266F (sharp sign), are one code unit each.
  String literals of the source are written \<open>js ''...''\<close>.
\<close>

type_synonym jschar = nat
type_synonym jsstring = "jschar list"

definition ch :: "char \<Rightarrow> jschar" where
  "ch c = of_char c"

definition js :: "string \<Rightarrow> jsstring" where
  "js s = map ch s"

definition flat_sign :: jschar where
  "flat_sign = 9837"

definition sharp_sign :: jschar where
  "sharp_sign = 9839"

text \<open>
  \<open>isWhiteSpace\<close> is the set that both \<open>String.prototype.trim\<close> and the regular
  expression class \<open>\s\<close> use: TAB, LF, VT, FF, CR, SPACE, NBSP, U+1680, U+2000..U+200A,
  U+2028, U+2029, U+202F, U+205F, U+3000 and U+FEFF.
\<close>

definition isWhiteSpace :: "jschar \<Rightarrow> bool" where
  "isWhiteSpace c \<longleftrightarrow>
     (9 \<le> c \<and> c \<le> 13) \<or> c = 32 \<or> c = 160 \<or> c = 5760 \<or> (8192 \<le> c \<and> c \<le> 8202) \<or>
     c = 8232 \<or> c = 8233 \<or> c = 8239 \<or> c = 8287 \<or> c = 12288 \<or> c = 65279"

definition trim :: "jsstring \<Rightarrow> jsstring" where
  "trim s = rev (dropWhile isWhiteSpace (rev (dropWhile isWhiteSpace s)))"

text \<open>\<open>s.replace(/c/g, r)\<close> for a one-character pattern and a one-character replacement.\<close>

definition replaceAll :: "jschar \<Rightarrow> jschar \<Rightarrow> jsstring \<Rightarrow> jsstring" where
  "replaceAll c r s = map (\<lambda>x. if x = c then r else x) s"

text \<open>
  The Basic Latin part of \<open>String.prototype.toUpperCase\<close>: \<open>a\<close>..\<open>z\<close> go to
  \<open>A\<close>..\<open>Z\<close>, every other code unit is left as it is. The note parser upper-cases a
  text only to compare it with \<open>A\<close>..\<open>G\<close>, \<open>#\<close> and \<open>B\<close>; in Unicode only \<open>a\<close>..\<open>g\<close>
  have an upper-case form that is one of \<open>A\<close>..\<open>G\<close>, and no character outside Basic
  Latin has an upper-case form made of \<open>#\<close> and \<open>B\<close> only, so in the note parser this
  mapping gives the outcome of the built-in on every string.
\<close>

definition toUpperChar :: "jschar \<Rightarrow> jschar" where
  "toUpperChar c = (if 97 \<le> c \<and> c \<le> 122 then c - 32 else c)"

definition toUpperCase :: "jsstring \<Rightarrow> jsstring" where
  "toUpperCase s = map toUpperChar s"

text \<open>
  The tuning resolver returns upper-cased tokens, so it sees the whole of the built-in
  \<open>String.prototype.toUpperCase\<close> (which turns U+00E9 into U+00C9 and U+00DF into
  \<open>SS\<close>). The built-in is not code of this program: the model of the tuning resolver
  takes it as the parameter \<open>upper\<close>. What is known of it here is \<open>latin_upper\<close>: on a
  text of Basic Latin characters and the two accidental signs, which have no case, it is
  the Basic Latin mapping.
\<close>

definition latin_upper :: "(jsstring \<Rightarrow> jsstring) \<Rightarrow> bool" where
  "latin_upper upper \<longleftrightarrow>
     (\<forall>s. (\<forall>c\<in>set s. c < 128 \<or> c = flat_sign \<or> c = sharp_sign) \<longrightarrow> upper s = toUpperCase s)"

text \<open>\<open>s.charAt(i)\<close>: the one-character string at \<open>i\<close>, the empty string out of range.\<close>

definition charAt :: "jsstring \<Rightarrow> nat \<Rightarrow> jsstring" where
  "charAt s i = (if i < length s then [s ! i] else [])"

text \<open>
  \<open>a[i]\<close> on an array: \<open>undefined\<close> (here \<open>None\<close>) out of range.
\<close>

definition js_index :: "'a list \<Rightarrow> int \<Rightarrow> 'a option" where
  "js_index a i = (if 0 \<le> i \<and> nat i < length a then Some (a ! nat i) else None)"

text \<open>
  The remainder operator \<open>%\<close> of JavaScript truncates: the result has the sign of the
  dividend. The numbers of this program are integers far below \<open>2^53\<close>, so the
  double-precision arithmetic of the source is exact and modelled on \<open>int\<close>.
\<close>

definition js_rem :: "int \<Rightarrow> int \<Rightarrow> int" where
  "js_rem a b = sgn a * (\<bar>a\<bar> mod \<bar>b\<bar>)"

section \<open>The note parser\<close>

definition baseSemitoneMap :: "jsstring \<rightharpoonup> int" where
  "baseSemitoneMap = map_of
     [(js ''C'', 0), (js ''D'', 2), (js ''E'', 4), (js ''F'', 5), (js ''G'', 7),
      (js ''A'', 9), (js ''B'', 11)]"

text \<open>
  The loop \<open>for (let i = 1; i < n.length; i++)\<close> of \<open>parseNoteToSemitone\<close>, with the
  running \<open>semitone\<close>; \<open>None\<close> is the early \<open>return null\<close>.
\<close>

function accidentals_loop :: "jsstring \<Rightarrow> nat \<Rightarrow> int \<Rightarrow> int option" where
  "accidentals_loop n i semitone =
     (if i < length n then
        (let c = charAt n i in
         if c = js ''#'' then accidentals_loop n (i + 1) (semitone + 1)
         else if c = js ''B'' then accidentals_loop n (i + 1) (semitone - 1)
         else None)
      else Some semitone)"
  by pat_completeness auto
termination
  by (relation "measure (\<lambda>(n, i, semitone). length n - i)") auto

text \<open>
  The argument is \<open>None\<close> for \<open>undefined\<close> (a missing array entry), \<open>Some s\<close> for a
  string. The result is \<open>None\<close> for \<open>null\<close>.
\<close>

definition parseNoteToSemitone :: "jsstring option \<Rightarrow> int option" where
  "parseNoteToSemitone note =
     (case note of
        None \<Rightarrow> None
      | Some note' \<Rightarrow>
          if note' = [] then None
          else
            let n = trim note' in
            if length n = 0 then None
            else
              let n = toUpperCase (replaceAll sharp_sign (ch CHR ''#'')
                        (replaceAll flat_sign (ch CHR ''b'') n));
                  base = charAt n 0
              in (case baseSemitoneMap base of
                    None \<Rightarrow> None
                  | Some semitone \<Rightarrow>
                      (case accidentals_loop n 1 semitone of
                         None \<Rightarrow> None
                       | Some semitone' \<Rightarrow> Some (js_rem (js_rem semitone' 12 + 12) 12))))"

section \<open>The static tables\<close>

definition noteNamesSharp :: "jsstring list" where
  "noteNamesSharp = map js
     [''C'', ''C#'', ''D'', ''D#'', ''E'', ''F'', ''F#'', ''G'', ''G#'', ''A'', ''A#'', ''B'']"

definition naturalMinorScales :: "int \<rightharpoonup> jsstring list" where
  "naturalMinorScales = map_of
     [(0, map js [''C'', ''D'', ''Eb'', ''F'', ''G'', ''Ab'', ''Bb'']),
      (1, map js [''C#'', ''D#'', ''E'', ''F#'', ''G#'', ''A'', ''B'']),
      (2, map js [''D'', ''E'', ''F'', ''G'', ''A'', ''Bb'', ''C'']),
      (3, map js [''Eb'', ''F'', ''Gb'', ''Ab'', ''Bb'', ''Cb'', ''Db'']),
      (4, map js [''E'', ''F#'', ''G'', ''A'', ''B'', ''C'', ''D'']),
      (5, map js [''F'', ''G'', ''Ab'', ''Bb'', ''C'', ''Db'', ''Eb'']),
      (6, map js [''F#'', ''G#'', ''A'', ''B'', ''C#'', ''D'', ''E'']),
      (7, map js [''G'', ''A'', ''Bb'', ''C'', ''D'', ''Eb'', ''F'']),
      (8, map js [''Ab'', ''Bb'', ''Cb'', ''Db'', ''Eb'', ''Fb'', ''Gb'']),
      (9, map js [''A'', ''B'', ''C'', ''D'', ''E'', ''F'', ''G'']),
      (10, map js [''Bb'', ''C'', ''Db'', ''Eb'', ''F'', ''Gb'', ''Ab'']),
      (11, map js [''B'', ''C#'', ''D'', ''E'', ''F#'', ''G'', ''A''])]"

definition harmonicMinorScales :: "int \<rightharpoonup> jsstring list" where
  "harmonicMinorScales = map_of
     [(0, map js [''C'', ''D'', ''Eb'', ''F'', ''G'', ''Ab'', ''B'']),
      (1, map js [''C#'', ''D#'', ''E'', ''F#'', ''G#'', ''A'', ''B#'']),
      (2, map js [''D'', ''E'', ''F'', ''G'', ''A'', ''Bb'', ''C#'']),
      (3, map js [''Eb'', ''F'', ''Gb'', ''Ab'', ''Bb'', ''Cb'', ''D'']),
      (4, map js [''E'', ''F#'', ''G'', ''A'', ''B'', ''C'', ''D#'']),
      (5, map js [''F'', ''G'', ''Ab'', ''Bb'', ''C'', ''Db'', ''E'']),
      (6, map js [''F#'', ''G#'', ''A'', ''B'', ''C#'', ''D'', ''E#'']),
      (7, map js [''G'', ''A'', ''Bb'', ''C'', ''D'', ''Eb'', ''F#'']),
      (8, map js [''Ab'', ''Bb'', ''Cb'', ''Db'', ''Eb'', ''Fb'', ''G'']),
      (9, map js [''A'', ''B'', ''C'', ''D'', ''E'', ''F'', ''G#'']),
      (10, map js [''Bb'', ''C'', ''Db'', ''Eb'', ''F'', ''Gb'', ''A'']),
      (11, map js [''B'', ''C#'', ''D'', ''E'', ''F#'', ''G'', ''A#''])]"

definition standardTunings :: "nat \<rightharpoonup> jsstring list" where
  "standardTunings = map_of
     [(4, map js [''E'', ''A'', ''D'', ''G'']),
      (5, map js [''B'', ''E'', ''A'', ''D'', ''G'']),
      (6, map js [''E'', ''A'', ''D'', ''G'', ''B'', ''E'']),
      (7, map js [''B'', ''E'', ''A'', ''D'', ''G'', ''B'', ''E'']),
      (8, map js [''F#'', ''B'', ''E'', ''A'', ''D'', ''G'', ''B'', ''E''])]"

section \<open>The tuning resolver\<close>

text \<open>
  \<open>/^drop\s+/i.test(s)\<close>: the four letters in either case, then at least one white-space
  character. Without the \<open>u\<close> flag a character matches a pattern letter when both have
  the same single-code-unit upper-case form, and a non-ASCII character is never folded
  into ASCII.
\<close>

fun test_drop :: "jsstring \<Rightarrow> bool" where
  "test_drop (c1 # c2 # c3 # c4 # w # rest) \<longleftrightarrow>
     toUpperChar c1 = ch CHR ''D'' \<and> toUpperChar c2 = ch CHR ''R'' \<and>
     toUpperChar c3 = ch CHR ''O'' \<and> toUpperChar c4 = ch CHR ''P'' \<and> isWhiteSpace w"
| "test_drop _ \<longleftrightarrow> False"

text \<open>
  \<open>s.split(/\s+/)\<close>: the pieces between the maximal runs of white space, with an empty
  first piece when \<open>s\<close> starts with white space, an empty last piece when it ends with
  white space, and the single piece \<open>""\<close> for the empty string.
\<close>

function split_ws :: "jsstring \<Rightarrow> jsstring list" where
  "split_ws s =
     (let piece = takeWhile (\<lambda>c. \<not> isWhiteSpace c) s;
          rest = dropWhile (\<lambda>c. \<not> isWhiteSpace c) s
      in if rest = [] then [piece] else piece # split_ws (dropWhile isWhiteSpace rest))"
  by pat_completeness auto
termination
proof (relation "measure length")
  fix s piece rest :: jsstring
  assume r: "rest = dropWhile (\<lambda>c. \<not> isWhiteSpace c) s" and ne: "rest \<noteq> []"
  from ne obtain x xs where c: "rest = x # xs"
    by (cases rest) auto
  have "dropWhile (\<lambda>c. \<not> isWhiteSpace c) s \<noteq> []"
    using r ne by simp
  then have "\<not> \<not> isWhiteSpace (hd (dropWhile (\<lambda>c. \<not> isWhiteSpace c) s))"
    by (rule hd_dropWhile)
  moreover have "hd (dropWhile (\<lambda>c. \<not> isWhiteSpace c) s) = x"
    using r [symmetric] c by simp
  ultimately have "isWhiteSpace x"
    by simp
  then have "length (dropWhile isWhiteSpace rest) \<le> length xs"
    by (simp add: c length_dropWhile_le)
  moreover have "length rest \<le> length s"
    by (simp add: r length_dropWhile_le)
  ultimately show "(dropWhile isWhiteSpace rest, s) \<in> measure length"
    by (simp add: c)
qed simp

text \<open>\<open>result[0] = v\<close>: an assignment at index 0 of an empty array extends it.\<close>

definition assign0 :: "'a list \<Rightarrow> 'a \<Rightarrow> 'a list" where
  "assign0 a v = (case a of [] \<Rightarrow> [v] | x # xs \<Rightarrow> v # xs)"

text \<open>
  The argument \<open>upper\<close> is the built-in \<open>toUpperCase\<close>; \<open>input\<close> is \<open>None\<close> when it
  is missing (\<open>undefined\<close> or \<open>null\<close>); \<open>numStrings\<close> is a count. The tuning resolver
  upper-cases first and replaces the Unicode accidentals afterwards, so a flat sign
  comes out as a lower-case \<open>b\<close>.
\<close>

definition parseTuning ::
  "(jsstring \<Rightarrow> jsstring) \<Rightarrow> jsstring option \<Rightarrow> nat \<Rightarrow> jsstring list option"
where
  "parseTuning upper input numStrings =
     (case input of
        None \<Rightarrow> None
      | Some input' \<Rightarrow>
          if input' = [] then None
          else
            let trimmed = trim input' in
            if test_drop trimmed then
              (let parts = split_ws trimmed in
               if length parts < 2 then None
               else
                 let dropNote = replaceAll sharp_sign (ch CHR ''#'')
                       (replaceAll flat_sign (ch CHR ''b'') (upper (parts ! 1)))
                 in (case standardTunings numStrings of
                       None \<Rightarrow> None
                     | Some baseTuning \<Rightarrow> Some (assign0 baseTuning dropNote)))
            else
              let tokens = filter (\<lambda>t. t \<noteq> []) (split_ws trimmed) in
              if length tokens \<noteq> numStrings then None
              else Some (map (\<lambda>t. replaceAll sharp_sign (ch CHR ''#'')
                           (replaceAll flat_sign (ch CHR ''b'') (upper t))) tokens))"

section \<open>The scale and fretboard generator\<close>

text \<open>
  The four error objects of \<open>generateScaleDiagram\<close>: invalid key, invalid scale type,
  scale not found, and invalid tuning note. The last one carries the text that the
  template literal puts after the colon.
\<close>

datatype error = InvalidKey | InvalidScaleType | ScaleNotFound | InvalidTuningNote jsstring

text \<open>The text of \<open>${v}\<close> in a template literal for a string or \<open>undefined\<close>.\<close>

definition template_text :: "jsstring option \<Rightarrow> jsstring" where
  "template_text v = (case v of None \<Rightarrow> js ''undefined'' | Some s \<Rightarrow> s)"

text \<open>
  A cell is the two-element array \<open>[noteNameDisplay, inScale]\<close>; the name is the result
  of an array read, so it is \<open>None\<close> where the read would give \<open>undefined\<close>.
\<close>

type_synonym cell = "jsstring option \<times> bool"

record diagram =
  scale :: "jsstring list"
  fretboard :: "cell list list"
  rootSemitone :: int
  scaleSemitones :: "int option list"

definition fretCount :: nat where
  "fretCount = 12"

text \<open>The inner loop \<open>for (let fret = 1; fret <= fretCount; fret++)\<close>.\<close>

function frets_loop :: "int \<Rightarrow> int option list \<Rightarrow> nat \<Rightarrow> cell list \<Rightarrow> cell list" where
  "frets_loop openSemitone scaleSemis fret stringRow =
     (if fret \<le> fretCount then
        (let noteSemitone = js_rem (openSemitone + int fret) 12;
             noteNameDisplay = js_index noteNamesSharp noteSemitone;
             inScale = (Some noteSemitone \<in> set scaleSemis)
         in frets_loop openSemitone scaleSemis (fret + 1)
              (stringRow @ [(noteNameDisplay, inScale)]))
      else stringRow)"
  by pat_completeness auto
termination
  by (relation "measure (\<lambda>(openSemitone, scaleSemis, fret, stringRow). Suc fretCount - fret)") auto

text \<open>
  The outer loop \<open>for (let s = 0; s < numStrings; s++)\<close>; \<open>Inl\<close> is the early return of
  the error object.
\<close>

function strings_loop ::
  "nat \<Rightarrow> jsstring list \<Rightarrow> int option list \<Rightarrow> nat \<Rightarrow> cell list list \<Rightarrow> error + cell list list"
where
  "strings_loop numStrings tuningArray scaleSemis s fb =
     (if s < numStrings then
        (let openNote = js_index tuningArray (int s);
             openSemitone = parseNoteToSemitone openNote
         in case openSemitone of
              None \<Rightarrow> Inl (InvalidTuningNote (template_text openNote))
            | Some openSemitone' \<Rightarrow>
                strings_loop numStrings tuningArray scaleSemis (s + 1)
                  (fb @ [frets_loop openSemitone' scaleSemis 1 []]))
      else Inr fb)"
  by pat_completeness auto
termination
  by (relation "measure (\<lambda>(numStrings, tuningArray, scaleSemis, s, fb). numStrings - s)") auto

text \<open>
  The arguments have the types of the source's annotations: \<open>numStrings\<close> is a count,
  \<open>tuningArray\<close> an array of strings, \<open>rootNote\<close> and \<open>scaleType\<close> are strings. The
  result is the error object (\<open>Inl\<close>) or the object with the fields \<open>scale\<close>,
  \<open>fretboard\<close>, \<open>rootSemitone\<close> and \<open>scaleSemitones\<close>.
\<close>

definition generateScaleDiagram ::
  "nat \<Rightarrow> jsstring list \<Rightarrow> jsstring \<Rightarrow> jsstring \<Rightarrow> error + diagram"
where
  "generateScaleDiagram numStrings tuningArray rootNote scaleType =
     (case parseNoteToSemitone (Some rootNote) of
        None \<Rightarrow> Inl InvalidKey
      | Some rootSemi \<Rightarrow>
          (case (if scaleType = js ''natural'' then Inr (naturalMinorScales rootSemi)
                 else if scaleType = js ''harmonic'' then Inr (harmonicMinorScales rootSemi)
                 else Inl InvalidScaleType) of
             Inl e \<Rightarrow> Inl e
           | Inr None \<Rightarrow> Inl ScaleNotFound
           | Inr (Some scaleNotes) \<Rightarrow>
               (let scaleSemis = map (\<lambda>n. parseNoteToSemitone (Some n)) scaleNotes
                in case strings_loop numStrings tuningArray scaleSemis 0 [] of
                     Inl e \<Rightarrow> Inl e
                   | Inr fb \<Rightarrow>
                       Inr \<lparr>scale = scaleNotes, fretboard = fb, rootSemitone = rootSemi,
                            scaleSemitones = scaleSemis\<rparr>)))"

section \<open>Arithmetic and loop lemmas\<close>

declare accidentals_loop.simps [simp del]
declare frets_loop.simps [simp del]
declare strings_loop.simps [simp del]
declare split_ws.simps [simp del]

text \<open>The definitions that evaluate the string built-ins on a literal.\<close>

lemmas js_eval =
  ch_def js_def flat_sign_def sharp_sign_def isWhiteSpace_def trim_def replaceAll_def
  toUpperChar_def toUpperCase_def charAt_def js_index_def baseSemitoneMap_def

lemma js_rem_nonneg: "0 \<le> a \<Longrightarrow> js_rem a b = a mod \<bar>b\<bar>"
  by (simp add: js_rem_def sgn_if)

lemma js_rem_floor: "js_rem (js_rem a 12 + 12) 12 = a mod 12"
proof (cases "0 \<le> a")
  case True
  then show ?thesis by (simp add: js_rem_nonneg)
next
  case False
  then have neg: "a < 0" by simp
  have r: "0 \<le> a mod 12" "a mod 12 < 12" by simp_all
  have "js_rem a 12 = - ((- a) mod 12)"
    using neg by (simp add: js_rem_def sgn_if)
  also have "\<dots> = (if a mod 12 = 0 then 0 else a mod 12 - 12)"
    by (simp add: zmod_zminus1_eq_if)
  finally have e: "js_rem a 12 + 12 = (if a mod 12 = 0 then 12 else a mod 12)"
    by simp
  have "0 \<le> js_rem a 12 + 12"
    using r by (simp add: e)
  then have "js_rem (js_rem a 12 + 12) 12 = (js_rem a 12 + 12) mod 12"
    by (simp add: js_rem_nonneg)
  also have "\<dots> = a mod 12"
    by (simp add: e)
  finally show ?thesis .
qed

lemma accidentals_loop_eq:
  "accidentals_loop n i s =
     (if \<forall>c\<in>set (drop i n). c = ch CHR ''#'' \<or> c = ch CHR ''B''
      then Some (s + int (count_list (drop i n) (ch CHR ''#''))
                   - int (count_list (drop i n) (ch CHR ''B'')))
      else None)"
proof (induction n i s rule: accidentals_loop.induct)
  case (1 n i s)
  show ?case
  proof (cases "i < length n")
    case False
    then show ?thesis
      by (simp add: accidentals_loop.simps [of n i s])
  next
    case True
    then have d: "drop i n = n ! i # drop (Suc i) n"
      by (simp add: Cons_nth_drop_Suc)
    consider (sharp) "n ! i = 35" | (flat) "n ! i = 66" | (other) "n ! i \<noteq> 35" "n ! i \<noteq> 66"
      by blast
    then show ?thesis
    proof cases
      case sharp
      with True 1(1) [of "charAt n i"] show ?thesis
        by (simp add: accidentals_loop.simps [of n i s] d charAt_def js_def ch_def)
    next
      case flat
      with True 1(2) [of "charAt n i"] show ?thesis
        by (simp add: accidentals_loop.simps [of n i s] d charAt_def js_def ch_def)
    next
      case other
      with True show ?thesis
        by (simp add: accidentals_loop.simps [of n i s] d charAt_def js_def ch_def)
    qed
  qed
qed

lemma trim_Nil: "trim [] = []"
  by (simp add: trim_def)

lemma parseNoteToSemitone_Some_eq:
  "parseNoteToSemitone (Some note) =
     (let n = toUpperCase (replaceAll sharp_sign (ch CHR ''#'')
                (replaceAll flat_sign (ch CHR ''b'') (trim note)))
      in if n = [] then None
         else case baseSemitoneMap [hd n] of
                None \<Rightarrow> None
              | Some b \<Rightarrow>
                  if \<forall>c\<in>set (tl n). c = ch CHR ''#'' \<or> c = ch CHR ''B''
                  then Some ((b + int (count_list (tl n) (ch CHR ''#''))
                                - int (count_list (tl n) (ch CHR ''B''))) mod 12)
                  else None)"
proof (cases "trim note = []")
  case True
  then show ?thesis
    by (simp add: parseNoteToSemitone_def toUpperCase_def replaceAll_def)
next
  case False
  then have ne: "note \<noteq> []"
    using trim_Nil by auto
  define n where "n = toUpperCase (replaceAll sharp_sign (ch CHR ''#'')
                (replaceAll flat_sign (ch CHR ''b'') (trim note)))"
  have nne: "n \<noteq> []"
    using False by (simp add: n_def toUpperCase_def replaceAll_def)
  then have c0: "charAt n 0 = [hd n]"
    by (simp add: charAt_def hd_conv_nth)
  have d1: "drop (Suc 0) n = tl n"
    by (simp add: drop_Suc)
  show ?thesis
    using ne False nne
    by (auto simp: parseNoteToSemitone_def Let_def n_def [symmetric] c0 accidentals_loop_eq d1
        js_rem_floor split: option.splits)
qed

lemma parseNoteToSemitone_range:
  "parseNoteToSemitone x = Some r \<Longrightarrow> 0 \<le> r \<and> r < 12"
proof (cases x)
  case None
  assume "parseNoteToSemitone x = Some r"
  with None show ?thesis by (simp add: parseNoteToSemitone_def)
next
  case (Some str)
  assume "parseNoteToSemitone x = Some r"
  with Some show ?thesis
    by (auto simp: parseNoteToSemitone_Some_eq Let_def split: if_splits option.splits)
qed

lemma normalise_map:
  "toUpperCase (replaceAll sharp_sign (ch CHR ''#'') (replaceAll flat_sign (ch CHR ''b'') t))
     = map (\<lambda>c. toUpperChar (if c = flat_sign then ch CHR ''b''
                               else if c = sharp_sign then ch CHR ''#'' else c)) t"
  by (simp add: toUpperCase_def replaceAll_def flat_sign_def sharp_sign_def ch_def)

lemma normalise_letter:
  "toUpperChar (if c = flat_sign then ch CHR ''b''
                else if c = sharp_sign then ch CHR ''#'' else c) \<in> set (js ''ABCDEFG'')
   \<longleftrightarrow> c \<in> set (js ''ABCDEFGabcdefg'') \<union> {flat_sign}"
  by (auto simp: toUpperChar_def flat_sign_def sharp_sign_def ch_def js_def split: if_splits)

lemma normalise_accidental:
  "toUpperChar (if c = flat_sign then ch CHR ''b''
                else if c = sharp_sign then ch CHR ''#'' else c) \<in> {ch CHR ''#'', ch CHR ''B''}
   \<longleftrightarrow> c \<in> set (js ''#bB'') \<union> {sharp_sign, flat_sign}"
  by (auto simp: toUpperChar_def flat_sign_def sharp_sign_def ch_def js_def split: if_splits)

lemma parseNoteToSemitone_None_raw:
  "parseNoteToSemitone (Some note) = None \<longleftrightarrow>
      (let t = trim note
       in t = [] \<or> hd t \<notin> set (js ''ABCDEFGabcdefg'') \<union> {flat_sign} \<or>
          (\<exists>c\<in>set (tl t). c \<notin> set (js ''#bB'') \<union> {sharp_sign, flat_sign}))"
proof -
  define f where "f c = toUpperChar (if c = flat_sign then ch CHR ''b''
                else if c = sharp_sign then ch CHR ''#'' else c)" for c
  have d: "baseSemitoneMap [c] = None \<longleftrightarrow> c \<notin> set (js ''ABCDEFG'')" for c
    by (simp add: js_def ch_def baseSemitoneMap_def)
  have l: "f c \<in> set (js ''ABCDEFG'') \<longleftrightarrow> c \<in> set (js ''ABCDEFGabcdefg'') \<union> {flat_sign}" for c
    unfolding f_def by (rule normalise_letter)
  have a: "f c = ch CHR ''#'' \<or> f c = ch CHR ''B''
      \<longleftrightarrow> c \<in> set (js ''#bB'') \<union> {sharp_sign, flat_sign}" for c
    using normalise_accidental [of c] unfolding f_def by simp
  have n: "toUpperCase (replaceAll sharp_sign (ch CHR ''#'')
      (replaceAll flat_sign (ch CHR ''b'') (trim note))) = map f (trim note)"
    unfolding f_def by (rule normalise_map)
  show ?thesis
  proof (cases "trim note = []")
    case True
    then show ?thesis
      by (simp add: parseNoteToSemitone_Some_eq toUpperCase_def replaceAll_def)
  next
    case False
    then have h: "hd (map f (trim note)) = f (hd (trim note))"
      by (simp add: hd_map)
    have t: "tl (map f (trim note)) = map f (tl (trim note))"
      by (simp add: map_tl)
    have "parseNoteToSemitone (Some note) = None \<longleftrightarrow>
        f (hd (trim note)) \<notin> set (js ''ABCDEFG'') \<or>
        (\<exists>c\<in>set (tl (trim note)). \<not> (f c = ch CHR ''#'' \<or> f c = ch CHR ''B''))"
      using False
      by (auto simp: parseNoteToSemitone_Some_eq Let_def n h t d [symmetric]
          split: option.splits)
    then show ?thesis
      using False unfolding l a by (simp add: Let_def)
  qed
qed

section \<open>Lemmas on the tuning resolver\<close>

lemma split_ws_ne: "split_ws s \<noteq> []"
  by (simp add: split_ws.simps [of s] Let_def)

lemma split_ws_word:
  "\<forall>c\<in>set w. \<not> isWhiteSpace c \<Longrightarrow> isWhiteSpace x \<Longrightarrow>
   split_ws (w @ x # rest) = w # split_ws (dropWhile isWhiteSpace rest)"
  by (simp add: split_ws.simps [of "w @ x # rest"] Let_def takeWhile_append2 dropWhile_append2
      takeWhile_tail dropWhile_append3)

lemma split_ws_single:
  "\<forall>c\<in>set w. \<not> isWhiteSpace c \<Longrightarrow> split_ws w = [w]"
  by (simp add: split_ws.simps [of w] Let_def)

lemma toUpperChar_letter:
  "toUpperChar c = ch CHR ''D'' \<or> toUpperChar c = ch CHR ''R'' \<or> toUpperChar c = ch CHR ''O'' \<or>
   toUpperChar c = ch CHR ''P'' \<Longrightarrow> \<not> isWhiteSpace c"
  by (auto simp: toUpperChar_def ch_def isWhiteSpace_def split: if_splits)

lemma test_drop_split:
  assumes "test_drop t"
  shows "\<exists>w rest. split_ws t = w # split_ws rest"
proof -
  from assms obtain c1 c2 c3 c4 x rest where t: "t = c1 # c2 # c3 # c4 # x # rest"
    by (rule test_drop.elims) auto
  with assms have l: "\<forall>c\<in>set [c1, c2, c3, c4]. \<not> isWhiteSpace c" and x: "isWhiteSpace x"
    by (auto simp: toUpperChar_letter)
  have "split_ws ([c1, c2, c3, c4] @ x # rest)
      = [c1, c2, c3, c4] # split_ws (dropWhile isWhiteSpace rest)"
    using l x by (rule split_ws_word)
  then show ?thesis
    by (auto simp: t)
qed

lemma test_drop_parts: "test_drop t \<Longrightarrow> 2 \<le> length (split_ws t)"
proof -
  assume "test_drop t"
  then obtain w rest where "split_ws t = w # split_ws rest"
    using test_drop_split by blast
  moreover have "split_ws rest \<noteq> []"
    by (rule split_ws_ne)
  ultimately show ?thesis
    by (cases "split_ws rest") auto
qed

lemma parseTuning_drop_eq:
  assumes "test_drop (trim input)"
  shows "parseTuning upper (Some input) n =
     map_option (\<lambda>baseTuning. assign0 baseTuning
        (replaceAll sharp_sign (ch CHR ''#'')
           (replaceAll flat_sign (ch CHR ''b'') (upper (split_ws (trim input) ! 1)))))
       (standardTunings n)"
proof -
  have "input \<noteq> []"
    using assms by (auto simp: trim_Nil)
  moreover have "\<not> length (split_ws (trim input)) < 2"
    using test_drop_parts [OF assms] by simp
  ultimately show ?thesis
    using assms by (simp add: parseTuning_def Let_def split: option.splits)
qed

lemma standardTunings_dom: "standardTunings n \<noteq> None \<longleftrightarrow> 4 \<le> n \<and> n \<le> 8"
  by (auto simp: standardTunings_def)

lemma standardTunings_assign0:
  "standardTunings n = Some base \<Longrightarrow> base \<noteq> [] \<and> assign0 base v = base[0 := v]"
  by (auto simp: standardTunings_def assign0_def split: if_splits)

lemma parseTuning_explicit_eq:
  assumes "input \<noteq> []" "\<not> test_drop (trim input)"
  shows "parseTuning upper (Some input) n =
     (let tokens = filter (\<lambda>t. t \<noteq> []) (split_ws (trim input)) in
      if length tokens \<noteq> n then None
      else Some (map (\<lambda>t. replaceAll sharp_sign (ch CHR ''#'')
                           (replaceAll flat_sign (ch CHR ''b'') (upper t))) tokens))"
  using assms by (simp add: parseTuning_def Let_def)

lemma latin_upperD:
  "latin_upper upper \<Longrightarrow> \<forall>c\<in>set s. c < 128 \<or> c = flat_sign \<or> c = sharp_sign \<Longrightarrow>
   upper s = toUpperCase s"
  by (simp add: latin_upper_def)

lemma latin_upper_toUpperCase: "latin_upper toUpperCase"
  by (simp add: latin_upper_def)

lemma set_trim: "set (trim s) \<subseteq> set s"
proof -
  have "set (trim s) \<subseteq> set (dropWhile isWhiteSpace s)"
    using set_dropWhileD [of _ isWhiteSpace "rev (dropWhile isWhiteSpace s)"]
    by (auto simp: trim_def)
  also have "\<dots> \<subseteq> set s"
    using set_dropWhileD [of _ isWhiteSpace s] by auto
  finally show ?thesis .
qed

lemma set_split_ws: "t \<in> set (split_ws s) \<Longrightarrow> set t \<subseteq> set s"
proof (induction s arbitrary: t rule: split_ws.induct)
  case (1 s)
  define piece where "piece = takeWhile (\<lambda>c. \<not> isWhiteSpace c) s"
  define rest where "rest = dropWhile (\<lambda>c. \<not> isWhiteSpace c) s"
  have ps: "set piece \<subseteq> set s"
    using set_takeWhileD [of _ "\<lambda>c. \<not> isWhiteSpace c" s] by (auto simp: piece_def)
  have rs: "set rest \<subseteq> set s"
    using set_dropWhileD [of _ "\<lambda>c. \<not> isWhiteSpace c" s] by (auto simp: rest_def)
  show ?case
  proof (cases "rest = []")
    case True
    have "split_ws s = [piece]"
      using True by (auto simp: split_ws.simps [of s] Let_def piece_def rest_def)
    with 1(2) have "t = piece"
      by simp
    with ps show ?thesis by simp
  next
    case False
    have "split_ws s = piece # split_ws (dropWhile isWhiteSpace rest)"
      using False by (auto simp: split_ws.simps [of s] Let_def piece_def rest_def)
    with 1(2) have "t = piece \<or> t \<in> set (split_ws (dropWhile isWhiteSpace rest))"
      by simp
    then show ?thesis
    proof
      assume "t = piece"
      with ps show ?thesis by simp
    next
      assume "t \<in> set (split_ws (dropWhile isWhiteSpace rest))"
      then have "set t \<subseteq> set (dropWhile isWhiteSpace rest)"
        using 1(1) [OF piece_def rest_def False] by blast
      also have "\<dots> \<subseteq> set rest"
        using set_dropWhileD [of _ isWhiteSpace rest] by auto
      finally show ?thesis
        using rs by blast
    qed
  qed
qed

lemma parseTuning_latin:
  assumes lu: "latin_upper upper"
    and inp: "\<forall>c\<in>set input. c < 128 \<or> c = flat_sign \<or> c = sharp_sign"
  shows "parseTuning upper (Some input) n = parseTuning toUpperCase (Some input) n"
proof -
  have tok: "upper t = toUpperCase t" if "t \<in> set (split_ws (trim input))" for t
  proof -
    from that have "set t \<subseteq> set input"
      using set_split_ws set_trim by blast
    with inp have "\<forall>c\<in>set t. c < 128 \<or> c = flat_sign \<or> c = sharp_sign"
      by blast
    with lu show ?thesis
      by (rule latin_upperD)
  qed
  show ?thesis
  proof (cases "test_drop (trim input)")
    case True
    then have "1 < length (split_ws (trim input))"
      using test_drop_parts [of "trim input"] by simp
    then have "upper (split_ws (trim input) ! 1) = toUpperCase (split_ws (trim input) ! 1)"
      by (intro tok nth_mem)
    then show ?thesis
      by (simp add: parseTuning_drop_eq [OF True])
  next
    case False
    show ?thesis
    proof (cases "input = []")
      case True
      then show ?thesis by (simp add: parseTuning_def)
    next
      case ne: False
      have "map (\<lambda>t. replaceAll sharp_sign (ch CHR ''#'')
                  (replaceAll flat_sign (ch CHR ''b'') (upper t)))
              (filter (\<lambda>t. t \<noteq> []) (split_ws (trim input)))
          = map (\<lambda>t. replaceAll sharp_sign (ch CHR ''#'')
                  (replaceAll flat_sign (ch CHR ''b'') (toUpperCase t)))
              (filter (\<lambda>t. t \<noteq> []) (split_ws (trim input)))"
        by (rule map_cong) (simp_all add: tok)
      then show ?thesis
        by (simp add: parseTuning_explicit_eq [OF ne False] Let_def)
    qed
  qed
qed

text \<open>The definitions that evaluate the tuning resolver on a literal.\<close>

lemmas tuning_eval = split_ws.simps standardTunings_def assign0_def

section \<open>Properties of the note parser\<close>

text \<open>
  Claim C3. Whenever the trimmed, accidental-normalised and upper-cased input is a letter
  \<open>l\<close> from \<open>A\<close>..\<open>G\<close> followed by characters \<open>acc\<close> that are all \<open>#\<close> or \<open>B\<close>,
  \<open>parseNoteToSemitone\<close> returns the base semitone of \<open>l\<close> plus the number of \<open>#\<close>
  minus the number of \<open>B\<close>, reduced by the floored modulo 12 (\<open>mod\<close> on \<open>int\<close>); the base
  semitones are those of the table C:0, D:2, E:4, F:5, G:7, A:9, B:11; the result lies in
  0..11; and \<open>C#\<close> and \<open>Db\<close> give the same pitch class.
\<close>

theorem parseNoteToSemitone_valid_note:
  assumes "toUpperCase (replaceAll sharp_sign (ch CHR ''#'')
             (replaceAll flat_sign (ch CHR ''b'') (trim note))) = l # acc"
    and "l \<in> set (js ''ABCDEFG'')"
    and "set acc \<subseteq> {ch CHR ''#'', ch CHR ''B''}"
  shows "(\<exists>b r. baseSemitoneMap [l] = Some b \<and>
            r = (b + int (count_list acc (ch CHR ''#''))
                   - int (count_list acc (ch CHR ''B''))) mod 12 \<and>
            parseNoteToSemitone (Some note) = Some r \<and> 0 \<le> r \<and> r \<le> 11) \<and>
         map (\<lambda>c. baseSemitoneMap [ch c]) ''CDEFGAB''
           = [Some 0, Some 2, Some 4, Some 5, Some 7, Some 9, Some 11] \<and>
         parseNoteToSemitone (Some (js ''C#'')) = Some 1 \<and>
         parseNoteToSemitone (Some (js ''Db'')) = Some 1"
proof -
  from assms(2) obtain b where b: "baseSemitoneMap [l] = Some b"
    by (auto simp: js_def ch_def baseSemitoneMap_def)
  from assms(3) have a: "\<forall>c\<in>set acc. c = ch CHR ''#'' \<or> c = ch CHR ''B''"
    by auto
  define r where "r = (b + int (count_list acc (ch CHR ''#''))
                         - int (count_list acc (ch CHR ''B''))) mod 12"
  have p: "parseNoteToSemitone (Some note) = Some r"
    using b a by (simp add: parseNoteToSemitone_Some_eq assms(1) r_def)
  have "0 \<le> r \<and> r < 12"
    using p by (rule parseNoteToSemitone_range)
  then have rng: "0 \<le> r \<and> r \<le> 11"
    by simp
  have tbl: "map (\<lambda>c. baseSemitoneMap [ch c]) ''CDEFGAB''
           = [Some 0, Some 2, Some 4, Some 5, Some 7, Some 9, Some 11]"
    by (simp add: baseSemitoneMap_def js_def ch_def)
  have cs: "parseNoteToSemitone (Some (js ''C#'')) = Some 1"
    by (simp add: parseNoteToSemitone_Some_eq js_eval)
  have db: "parseNoteToSemitone (Some (js ''Db'')) = Some 1"
    by (simp add: parseNoteToSemitone_Some_eq js_eval)
  from b r_def p rng tbl cs db show ?thesis
    by blast
qed

theorem parseNoteToSemitone_valid_note_witness:
  "toUpperCase (replaceAll sharp_sign (ch CHR ''#'')
     (replaceAll flat_sign (ch CHR ''b'') (trim (js '' ebb ''))))
     = ch CHR ''E'' # [ch CHR ''B'', ch CHR ''B''] \<and>
   ch CHR ''E'' \<in> set (js ''ABCDEFG'') \<and>
   set [ch CHR ''B'', ch CHR ''B''] \<subseteq> {ch CHR ''#'', ch CHR ''B''} \<and>
   parseNoteToSemitone (Some (js '' ebb '')) = Some 2"
proof -
  have h1: "toUpperCase (replaceAll sharp_sign (ch CHR ''#'')
     (replaceAll flat_sign (ch CHR ''b'') (trim (js '' ebb ''))))
     = ch CHR ''E'' # [ch CHR ''B'', ch CHR ''B'']"
    by (simp add: js_eval)
  have h2: "ch CHR ''E'' \<in> set (js ''ABCDEFG'')"
    by (simp add: js_eval)
  have h3: "set [ch CHR ''B'', ch CHR ''B''] \<subseteq> {ch CHR ''#'', ch CHR ''B''}"
    by simp
  show ?thesis
    using h1 h2 h3 parseNoteToSemitone_valid_note [OF h1 h2 h3]
    by (simp add: js_eval)
qed

text \<open>
  Claim C4. \<open>parseNoteToSemitone\<close> always returns (it is a total function on strings and
  on \<open>undefined\<close>), and it returns the invalid marker exactly when the input is empty
  or blank after trimming, or the first character of the normalised text is not one of
  \<open>A\<close>..\<open>G\<close>, or some later character of the normalised text is neither \<open>#\<close> nor the
  flat marker \<open>B\<close>. On the characters of the trimmed input itself: the first one is not
  a letter \<open>A\<close>..\<open>G\<close> in either case nor the flat sign (which is normalised to \<open>b\<close>),
  or a later one is none of \<open>#\<close>, \<open>b\<close>, \<open>B\<close>, the sharp sign and the flat sign. A missing
  input and the inputs \<open>""\<close>, \<open>"H"\<close> and \<open>"C$"\<close> are invalid.
\<close>

theorem parseNoteToSemitone_invalid_iff:
  "(parseNoteToSemitone (Some note) = None \<longleftrightarrow>
      (let n = toUpperCase (replaceAll sharp_sign (ch CHR ''#'')
                 (replaceAll flat_sign (ch CHR ''b'') (trim note)))
       in note = [] \<or> trim note = [] \<or> hd n \<notin> set (js ''ABCDEFG'') \<or>
          (\<exists>c\<in>set (tl n). c \<noteq> ch CHR ''#'' \<and> c \<noteq> ch CHR ''B''))) \<and>
   (parseNoteToSemitone (Some note) = None \<longleftrightarrow>
      (let t = trim note
       in t = [] \<or> hd t \<notin> set (js ''ABCDEFGabcdefg'') \<union> {flat_sign} \<or>
          (\<exists>c\<in>set (tl t). c \<notin> set (js ''#bB'') \<union> {sharp_sign, flat_sign}))) \<and>
   parseNoteToSemitone None = None \<and>
   parseNoteToSemitone (Some (js [])) = None \<and>
   parseNoteToSemitone (Some (js ''H'')) = None \<and>
   parseNoteToSemitone (Some (js ''C$'')) = None"
proof -
  have d: "baseSemitoneMap [c] = None \<longleftrightarrow> c \<notin> set (js ''ABCDEFG'')" for c
    by (simp add: js_def ch_def baseSemitoneMap_def)
  have "parseNoteToSemitone (Some note) = None \<longleftrightarrow>
      (let n = toUpperCase (replaceAll sharp_sign (ch CHR ''#'')
                 (replaceAll flat_sign (ch CHR ''b'') (trim note)))
       in note = [] \<or> trim note = [] \<or> hd n \<notin> set (js ''ABCDEFG'') \<or>
          (\<exists>c\<in>set (tl n). c \<noteq> ch CHR ''#'' \<and> c \<noteq> ch CHR ''B''))"
    by (auto simp: parseNoteToSemitone_Some_eq Let_def d [symmetric] toUpperCase_def
        replaceAll_def trim_Nil split: option.splits)
  moreover note parseNoteToSemitone_None_raw [of "note"]
  moreover have "parseNoteToSemitone None = None"
    by (simp add: parseNoteToSemitone_def)
  moreover have "parseNoteToSemitone (Some (js [])) = None"
    by (simp add: parseNoteToSemitone_def js_def)
  moreover have "parseNoteToSemitone (Some (js ''H'')) = None"
    by (simp add: parseNoteToSemitone_Some_eq js_eval)
  moreover have "parseNoteToSemitone (Some (js ''C$'')) = None"
    by (simp add: parseNoteToSemitone_Some_eq js_eval)
  ultimately show ?thesis
    by blast
qed

theorem parseNoteToSemitone_invalid_iff_witness:
  "parseNoteToSemitone (Some (js ''Cx#'')) = None \<and>
   parseNoteToSemitone (Some (js ''  '')) = None \<and>
   parseNoteToSemitone (Some (js '' gb# '')) \<noteq> None"
  using parseNoteToSemitone_invalid_iff [of "js ''Cx#''"]
    parseNoteToSemitone_invalid_iff [of "js ''  ''"]
    parseNoteToSemitone_invalid_iff [of "js '' gb# ''"]
  by (simp add: js_eval)

section \<open>Lemmas on the generator loops and the scale tables\<close>

lemma frets_loop_eq:
  "frets_loop os ss f row =
     row @ map (\<lambda>fret. (js_index noteNamesSharp (js_rem (os + int fret) 12),
                        Some (js_rem (os + int fret) 12) \<in> set ss)) [f..<13]"
proof (induction os ss f row rule: frets_loop.induct)
  case (1 os ss f row)
  show ?case
  proof (cases "f \<le> fretCount")
    case True
    then have u: "[f..<13] = f # [Suc f..<13]"
      by (simp add: fretCount_def upt_conv_Cons)
    from True 1 [OF True refl refl refl] show ?thesis
      by (simp add: frets_loop.simps [of os ss f row] Let_def u)
  next
    case False
    then show ?thesis
      by (simp add: frets_loop.simps [of os ss f row] fretCount_def)
  qed
qed

lemma strings_loop_ok:
  "(\<And>k. s \<le> k \<Longrightarrow> k < n \<Longrightarrow> parseNoteToSemitone (js_index t (int k)) \<noteq> None) \<Longrightarrow>
   strings_loop n t ss s fb =
     Inr (fb @ map (\<lambda>k. frets_loop (the (parseNoteToSemitone (js_index t (int k)))) ss 1 [])
                [s..<n])"
proof (induction n t ss s fb rule: strings_loop.induct)
  case (1 n t ss s fb)
  show ?case
  proof (cases "s < n")
    case False
    then show ?thesis
      by (simp add: strings_loop.simps [of n t ss s fb])
  next
    case True
    then obtain os where os: "parseNoteToSemitone (js_index t (int s)) = Some os"
      using 1(2) [of s] by auto
    have u: "[s..<n] = s # [Suc s..<n]"
      using True by (simp add: upt_conv_Cons)
    have "strings_loop n t ss (s + 1) (fb @ [frets_loop os ss 1 []]) =
       Inr ((fb @ [frets_loop os ss 1 []]) @
         map (\<lambda>k. frets_loop (the (parseNoteToSemitone (js_index t (int k)))) ss 1 [])
                [s + 1..<n])"
      using True os 1(2) by (intro 1(1) [OF True refl refl]) auto
    then show ?thesis
      using True os by (simp add: strings_loop.simps [of n t ss s fb] u)
  qed
qed

lemma strings_loop_fail:
  "s \<le> k \<Longrightarrow> k < n \<Longrightarrow> parseNoteToSemitone (js_index t (int k)) = None \<Longrightarrow>
   (\<And>j. s \<le> j \<Longrightarrow> j < k \<Longrightarrow> parseNoteToSemitone (js_index t (int j)) \<noteq> None) \<Longrightarrow>
   strings_loop n t ss s fb = Inl (InvalidTuningNote (template_text (js_index t (int k))))"
proof (induction n t ss s fb rule: strings_loop.induct)
  case (1 n t ss s fb)
  from 1(2,3) have sn: "s < n" by simp
  show ?case
  proof (cases "s = k")
    case True
    with sn 1(4) show ?thesis
      by (simp add: strings_loop.simps [of n t ss k fb])
  next
    case False
    with 1(2) have sk: "s < k" by simp
    then obtain os where os: "parseNoteToSemitone (js_index t (int s)) = Some os"
      using 1(5) [of s] by auto
    have "strings_loop n t ss (s + 1) (fb @ [frets_loop os ss 1 []]) =
        Inl (InvalidTuningNote (template_text (js_index t (int k))))"
      using sn os sk 1(3,4,5) by (intro 1(1) [OF sn refl refl]) auto
    then show ?thesis
      using sn os by (simp add: strings_loop.simps [of n t ss s fb])
  qed
qed

lemma strings_loop_Inr_parses:
  "strings_loop n t ss s fb = Inr fb' \<Longrightarrow> s \<le> k \<Longrightarrow> k < n \<Longrightarrow>
   parseNoteToSemitone (js_index t (int k)) \<noteq> None"
proof (induction n t ss s fb rule: strings_loop.induct)
  case (1 n t ss s fb)
  from 1(3,4) have sn: "s < n" by simp
  show ?case
  proof (cases "parseNoteToSemitone (js_index t (int s))")
    case None
    with sn 1(2) show ?thesis
      by (simp add: strings_loop.simps [of n t ss s fb])
  next
    case (Some os)
    show ?thesis
    proof (cases "s = k")
      case True
      with Some show ?thesis by simp
    next
      case False
      with 1(3) have "s + 1 \<le> k" by simp
      moreover have "strings_loop n t ss (s + 1) (fb @ [frets_loop os ss 1 []]) = Inr fb'"
        using sn Some 1(2) by (simp add: strings_loop.simps [of n t ss s fb])
      ultimately show ?thesis
        using 1(1) [OF sn refl refl Some] 1(4) by blast
    qed
  qed
qed

lemma strings_loop_Inl:
  "strings_loop n t ss s fb = Inl e \<Longrightarrow> \<exists>txt. e = InvalidTuningNote txt"
proof (induction n t ss s fb rule: strings_loop.induct)
  case (1 n t ss s fb)
  show ?case
  proof (cases "s < n")
    case False
    with 1(2) show ?thesis
      by (simp add: strings_loop.simps [of n t ss s fb])
  next
    case True
    show ?thesis
    proof (cases "parseNoteToSemitone (js_index t (int s))")
      case None
      with True 1(2) show ?thesis
        by (auto simp: strings_loop.simps [of n t ss s fb])
    next
      case (Some os)
      with True 1(2) have "strings_loop n t ss (s + 1) (fb @ [frets_loop os ss 1 []]) = Inl e"
        by (simp add: strings_loop.simps [of n t ss s fb])
      then show ?thesis
        using 1(1) [OF True refl refl Some] by blast
    qed
  qed
qed

lemma generateScaleDiagram_Inr:
  assumes "generateScaleDiagram n t root st = Inr d"
  obtains r ns fb where
    "parseNoteToSemitone (Some root) = Some r"
    "st = js ''natural'' \<and> naturalMinorScales r = Some ns \<or>
     st \<noteq> js ''natural'' \<and> st = js ''harmonic'' \<and> harmonicMinorScales r = Some ns"
    "strings_loop n t (map (\<lambda>x. parseNoteToSemitone (Some x)) ns) 0 [] = Inr fb"
    "d = \<lparr>scale = ns, fretboard = fb, rootSemitone = r,
          scaleSemitones = map (\<lambda>x. parseNoteToSemitone (Some x)) ns\<rparr>"
  using assms
  by (auto simp: generateScaleDiagram_def Let_def split: option.splits if_splits sum.splits)

lemma length_noteNamesSharp: "length noteNamesSharp = 12"
  by (simp add: noteNamesSharp_def)

lemma js_index_int: "js_index a (int k) = (if k < length a then Some (a ! k) else None)"
  by (simp add: js_index_def)

lemma int_range_12: "0 \<le> r \<Longrightarrow> r < 12 \<Longrightarrow>
  r = 0 \<or> r = 1 \<or> r = 2 \<or> r = 3 \<or> r = 4 \<or> r = 5 \<or> r = 6 \<or> r = 7 \<or> r = 8 \<or> r = 9 \<or>
  r = 10 \<or> r = (11::int)"
  by arith

lemma naturalMinorScales_ok:
  assumes "0 \<le> r" "r < 12"
  shows "\<exists>ns. naturalMinorScales r = Some ns \<and> length ns = 7 \<and>
           None \<notin> set (map (\<lambda>x. parseNoteToSemitone (Some x)) ns) \<and>
           distinct (map (\<lambda>x. parseNoteToSemitone (Some x)) ns)"
  using int_range_12 [OF assms]
  by (elim disjE)
    (simp_all add: naturalMinorScales_def parseNoteToSemitone_Some_eq js_eval)

lemma harmonicMinorScales_ok:
  assumes "0 \<le> r" "r < 12"
  shows "\<exists>ns. harmonicMinorScales r = Some ns \<and> length ns = 7 \<and>
           None \<notin> set (map (\<lambda>x. parseNoteToSemitone (Some x)) ns) \<and>
           distinct (map (\<lambda>x. parseNoteToSemitone (Some x)) ns)"
  using int_range_12 [OF assms]
  by (elim disjE)
    (simp_all add: harmonicMinorScales_def parseNoteToSemitone_Some_eq js_eval)

lemma strings_loop_cong:
  "(\<And>k. s \<le> k \<Longrightarrow> k < n \<Longrightarrow> js_index t (int k) = js_index t' (int k)) \<Longrightarrow>
   strings_loop n t ss s fb = strings_loop n t' ss s fb"
proof (induction n t ss s fb rule: strings_loop.induct)
  case (1 n t ss s fb)
  show ?case
  proof (cases "s < n")
    case False
    then show ?thesis
      by (simp add: strings_loop.simps [of n t ss s fb] strings_loop.simps [of n t' ss s fb])
  next
    case True
    then have e: "js_index t (int s) = js_index t' (int s)"
      using 1(2) [of s] by simp
    show ?thesis
    proof (cases "parseNoteToSemitone (js_index t (int s))")
      case None
      with True e show ?thesis
        by (simp add: strings_loop.simps [of n t ss s fb] strings_loop.simps [of n t' ss s fb])
    next
      case (Some os)
      have "strings_loop n t ss (s + 1) (fb @ [frets_loop os ss 1 []]) =
            strings_loop n t' ss (s + 1) (fb @ [frets_loop os ss 1 []])"
        using 1(2) by (intro 1(1) [OF True refl refl Some]) simp
      with True e Some show ?thesis
        by (simp add: strings_loop.simps [of n t ss s fb] strings_loop.simps [of n t' ss s fb])
    qed
  qed
qed

lemma strings_loop_take:
  "n \<le> length t \<Longrightarrow> strings_loop n (take n t) ss 0 [] = strings_loop n t ss 0 []"
  by (rule strings_loop_cong) (simp add: js_index_int)

lemma generateScaleDiagram_loop:
  assumes "parseNoteToSemitone (Some root) = Some r"
    and "st = js ''natural'' \<or> st = js ''harmonic''"
  shows "\<exists>ns. \<forall>n t. generateScaleDiagram n t root st =
           (case strings_loop n t (map (\<lambda>x. parseNoteToSemitone (Some x)) ns) 0 [] of
              Inl e \<Rightarrow> Inl e
            | Inr fb \<Rightarrow> Inr \<lparr>scale = ns, fretboard = fb, rootSemitone = r,
                 scaleSemitones = map (\<lambda>x. parseNoteToSemitone (Some x)) ns\<rparr>)"
proof -
  from assms(1) have rng: "0 \<le> r" "r < 12"
    using parseNoteToSemitone_range by blast+
  from naturalMinorScales_ok [OF rng] obtain ns1 where n1: "naturalMinorScales r = Some ns1"
    by blast
  from harmonicMinorScales_ok [OF rng] obtain ns2 where n2: "harmonicMinorScales r = Some ns2"
    by blast
  show ?thesis
  proof (cases "st = js ''natural''")
    case True
    then show ?thesis
      using assms(1) n1 by (intro exI [of _ ns1]) (simp add: generateScaleDiagram_def Let_def)
  next
    case False
    with assms(2) have "st = js ''harmonic''" by simp
    with False show ?thesis
      using assms(1) n2 by (intro exI [of _ ns2]) (simp add: generateScaleDiagram_def Let_def)
  qed
qed

section \<open>Properties of the scale and fretboard generator\<close>

text \<open>
  Claim C1. The call with 6 strings, tuning E A D G B E, root \<open>C\<close> and scale type
  \<open>harmonic\<close> succeeds with the scale C D Eb F G Ab B. On the lowest string (row 0, open
  E, pitch class 4) the cell of fret 3 is \<open>["G", true]\<close>, its pitch class is 7, which is not
  the returned root pitch class; the cell of fret 8 is \<open>["C", true]\<close>, its pitch class is 0,
  which is the returned root pitch class. Fret \<open>f\<close> is at index \<open>f - 1\<close> of a row; the
  pitch class of a cell is read back from its displayed name, as the diagram view does.
\<close>

theorem generateScaleDiagram_C_harmonic:
  "\<exists>d. generateScaleDiagram 6 (map js [''E'', ''A'', ''D'', ''G'', ''B'', ''E''])
          (js ''C'') (js ''harmonic'') = Inr d \<and>
       scale d = map js [''C'', ''D'', ''Eb'', ''F'', ''G'', ''Ab'', ''B''] \<and>
       rootSemitone d = 0 \<and>
       parseNoteToSemitone (Some (js ''E'')) = Some 4 \<and>
       fretboard d ! 0 ! (3 - 1) = (Some (js ''G''), True) \<and>
       js_rem (4 + 3) 12 = 7 \<and>
       parseNoteToSemitone (Some (js ''G'')) = Some 7 \<and>
       7 \<noteq> rootSemitone d \<and>
       fretboard d ! 0 ! (8 - 1) = (Some (js ''C''), True) \<and>
       js_rem (4 + 8) 12 = 0 \<and>
       parseNoteToSemitone (Some (js ''C'')) = Some 0 \<and>
       0 = rootSemitone d"
  by (simp add: generateScaleDiagram_def harmonicMinorScales_def parseNoteToSemitone_Some_eq
      js_eval strings_loop.simps frets_loop_eq noteNamesSharp_def js_rem_def)

text \<open>
  Claim C2. For every successful call, the fretboard has \<open>numStrings\<close> rows, row \<open>s\<close>
  belonging to \<open>tuningArray[s]\<close> (low string first); every row has 12 cells, the cell of
  fret \<open>f\<close> (1 to 12) at index \<open>f - 1\<close>, so there is no cell for fret 0; the name of that
  cell is \<open>noteNamesSharp[(pc + f) mod 12]\<close> where \<open>pc\<close> is the parsed pitch class of the
  open string, and its boolean says whether \<open>(pc + f) mod 12\<close> is among the pitch classes
  parsed from the names of the returned scale. Every cell name is an entry of the
  12-entry list of sharp spellings, none of which contains a flat.
\<close>

theorem generateScaleDiagram_fretboard:
  assumes "generateScaleDiagram numStrings tuningArray rootNote scaleType = Inr d"
  shows "length (fretboard d) = numStrings \<and>
     (\<forall>s<numStrings. length (fretboard d ! s) = 12 \<and> s < length tuningArray \<and>
        (\<exists>pc. parseNoteToSemitone (Some (tuningArray ! s)) = Some pc \<and>
           (\<forall>f\<in>{1..12}.
              nat ((pc + int f) mod 12) < length noteNamesSharp \<and>
              fretboard d ! s ! (f - 1) =
                (Some (noteNamesSharp ! nat ((pc + int f) mod 12)),
                 Some ((pc + int f) mod 12)
                   \<in> set (map (\<lambda>x. parseNoteToSemitone (Some x)) (scale d)))))) \<and>
     (\<forall>row\<in>set (fretboard d). \<forall>c\<in>set row. \<exists>name\<in>set noteNamesSharp. fst c = Some name) \<and>
     noteNamesSharp = map js [''C'', ''C#'', ''D'', ''D#'', ''E'', ''F'', ''F#'', ''G'', ''G#'',
                              ''A'', ''A#'', ''B''] \<and>
     (\<forall>name\<in>set noteNamesSharp. ch CHR ''b'' \<notin> set name)"
proof -
  from assms obtain r ns fb where
    loop: "strings_loop numStrings tuningArray (map (\<lambda>x. parseNoteToSemitone (Some x)) ns) 0 []
             = Inr fb"
    and d: "d = \<lparr>scale = ns, fretboard = fb, rootSemitone = r,
          scaleSemitones = map (\<lambda>x. parseNoteToSemitone (Some x)) ns\<rparr>"
    by (rule generateScaleDiagram_Inr)
  define ss where "ss = map (\<lambda>x. parseNoteToSemitone (Some x)) ns"
  have ok: "parseNoteToSemitone (js_index tuningArray (int k)) \<noteq> None" if "k < numStrings" for k
    using strings_loop_Inr_parses [OF loop, of k] that by simp
  have fb: "fb = map (\<lambda>k. frets_loop (the (parseNoteToSemitone (js_index tuningArray (int k))))
                        ss 1 []) [0..<numStrings]"
    using strings_loop_ok [of 0 numStrings tuningArray ss "[]"] ok loop by (simp add: ss_def)
  have len: "length fb = numStrings"
    by (simp add: fb)
  have row: "length (fb ! s) = 12 \<and> s < length tuningArray \<and>
        (\<exists>pc. parseNoteToSemitone (Some (tuningArray ! s)) = Some pc \<and>
           (\<forall>f\<in>{1..12}.
              nat ((pc + int f) mod 12) < length noteNamesSharp \<and>
              fb ! s ! (f - 1) =
                (Some (noteNamesSharp ! nat ((pc + int f) mod 12)),
                 Some ((pc + int f) mod 12) \<in> set ss)))" if s: "s < numStrings" for s
  proof -
    from ok [OF s] have inr: "s < length tuningArray"
      by (auto simp: js_index_int parseNoteToSemitone_def split: if_splits)
    with ok [OF s] obtain pc where pc: "parseNoteToSemitone (Some (tuningArray ! s)) = Some pc"
      by (auto simp: js_index_int)
    then have rng: "0 \<le> pc" "pc < 12"
      using parseNoteToSemitone_range by blast+
    have roweq: "fb ! s = map (\<lambda>fret. (js_index noteNamesSharp (js_rem (pc + int fret) 12),
                        Some (js_rem (pc + int fret) 12) \<in> set ss)) [1..<13]"
      using s inr pc by (simp add: fb frets_loop_eq js_index_int)
    have cellf: "nat ((pc + int f) mod 12) < length noteNamesSharp \<and>
        fb ! s ! (f - 1) = (Some (noteNamesSharp ! nat ((pc + int f) mod 12)),
                 Some ((pc + int f) mod 12) \<in> set ss)" if f: "f \<in> {1..12}" for f
    proof -
      from f have f1: "f - 1 < 12" "1 + (f - 1) = f" by auto
      have m: "js_rem (pc + int f) 12 = (pc + int f) mod 12"
        using rng by (simp add: js_rem_nonneg)
      have b: "0 \<le> (pc + int f) mod 12" "(pc + int f) mod 12 < 12"
        by simp_all
      then have n: "nat ((pc + int f) mod 12) < 12"
        by simp
      show ?thesis
        using f1 n b by (simp add: roweq m js_index_def length_noteNamesSharp)
    qed
    show ?thesis
      using inr pc cellf by (simp add: roweq)
  qed
  have names: "\<exists>name\<in>set noteNamesSharp. fst c = Some name"
    if rw: "rw \<in> set fb" and c: "c \<in> set rw" for rw c
  proof -
    from rw obtain s where s: "s < numStrings" "rw = fb ! s"
      using len by (auto simp: in_set_conv_nth)
    from row [OF s(1)] obtain pc where l12: "length (fb ! s) = 12"
      and cells: "\<forall>f\<in>{1..12}. nat ((pc + int f) mod 12) < length noteNamesSharp \<and>
              fb ! s ! (f - 1) =
                (Some (noteNamesSharp ! nat ((pc + int f) mod 12)),
                 Some ((pc + int f) mod 12) \<in> set ss)"
      by blast
    from c s(2) l12 obtain i where i: "i < 12" "c = fb ! s ! i"
      by (auto simp: in_set_conv_nth)
    have "Suc i \<in> {1..12}"
      using i(1) by simp
    with cells have "nat ((pc + int (Suc i)) mod 12) < length noteNamesSharp \<and>
        fb ! s ! (Suc i - 1) = (Some (noteNamesSharp ! nat ((pc + int (Suc i)) mod 12)),
                 Some ((pc + int (Suc i)) mod 12) \<in> set ss)"
      by blast
    then show ?thesis
      using i(2) by (auto intro: nth_mem)
  qed
  have lst: "noteNamesSharp = map js [''C'', ''C#'', ''D'', ''D#'', ''E'', ''F'', ''F#'', ''G'',
                              ''G#'', ''A'', ''A#'', ''B'']"
    by (simp add: noteNamesSharp_def)
  have noflat: "\<forall>name\<in>set noteNamesSharp. ch CHR ''b'' \<notin> set name"
    by (simp add: noteNamesSharp_def js_def ch_def)
  have a: "length (fretboard d) = numStrings"
    using len by (simp add: d)
  have b: "\<forall>s<numStrings. length (fretboard d ! s) = 12 \<and> s < length tuningArray \<and>
        (\<exists>pc. parseNoteToSemitone (Some (tuningArray ! s)) = Some pc \<and>
           (\<forall>f\<in>{1..12}.
              nat ((pc + int f) mod 12) < length noteNamesSharp \<and>
              fretboard d ! s ! (f - 1) =
                (Some (noteNamesSharp ! nat ((pc + int f) mod 12)),
                 Some ((pc + int f) mod 12)
                   \<in> set (map (\<lambda>x. parseNoteToSemitone (Some x)) (scale d)))))"
    using row by (simp add: d ss_def)
  have c: "\<forall>row\<in>set (fretboard d). \<forall>c\<in>set row. \<exists>name\<in>set noteNamesSharp. fst c = Some name"
    using names by (simp add: d)
  from a b c lst noflat show ?thesis
    by (intro conjI)
qed

theorem generateScaleDiagram_fretboard_witness:
  "\<exists>d. generateScaleDiagram 4 (map js [''E'', ''A'', ''D'', ''G'']) (js ''Eb'') (js ''natural'')
         = Inr d \<and>
       length (fretboard d) = 4 \<and> length (fretboard d ! 1) = 12 \<and>
       parseNoteToSemitone (Some (js ''A'')) = Some 9 \<and>
       fretboard d ! 1 ! (6 - 1) = (Some (js ''D#''), True) \<and>
       fretboard d ! 1 ! (7 - 1) = (Some (js ''E''), False)"
proof -
  have "\<exists>d. generateScaleDiagram 4 (map js [''E'', ''A'', ''D'', ''G'']) (js ''Eb'')
              (js ''natural'') = Inr d"
    by (simp add: generateScaleDiagram_def naturalMinorScales_def parseNoteToSemitone_Some_eq
        js_eval strings_loop.simps Let_def)
  then obtain d where d: "generateScaleDiagram 4 (map js [''E'', ''A'', ''D'', ''G'']) (js ''Eb'')
              (js ''natural'') = Inr d" ..
  have sc: "scale d = map js [''Eb'', ''F'', ''Gb'', ''Ab'', ''Bb'', ''Cb'', ''Db'']"
    using d by (auto simp: generateScaleDiagram_def naturalMinorScales_def
        parseNoteToSemitone_Some_eq js_eval Let_def split: sum.splits)
  have a: "parseNoteToSemitone (Some (js ''A'')) = Some 9"
    by (simp add: parseNoteToSemitone_Some_eq js_eval)
  from generateScaleDiagram_fretboard [OF d]
  have len: "length (fretboard d) = 4"
    and rows: "\<forall>s<4. length (fretboard d ! s) = 12 \<and>
        s < length (map js [''E'', ''A'', ''D'', ''G'']) \<and>
        (\<exists>pc. parseNoteToSemitone (Some (map js [''E'', ''A'', ''D'', ''G''] ! s)) = Some pc \<and>
           (\<forall>f\<in>{1..12}.
              nat ((pc + int f) mod 12) < length noteNamesSharp \<and>
              fretboard d ! s ! (f - 1) =
                (Some (noteNamesSharp ! nat ((pc + int f) mod 12)),
                 Some ((pc + int f) mod 12)
                   \<in> set (map (\<lambda>x. parseNoteToSemitone (Some x)) (scale d)))))"
    by blast+
  from rows have r1: "length (fretboard d ! 1) = 12 \<and>
        (\<exists>pc. parseNoteToSemitone (Some (js ''A'')) = Some pc \<and>
           (\<forall>f\<in>{1..12}.
              fretboard d ! 1 ! (f - 1) =
                (Some (noteNamesSharp ! nat ((pc + int f) mod 12)),
                 Some ((pc + int f) mod 12)
                   \<in> set (map (\<lambda>x. parseNoteToSemitone (Some x)) (scale d)))))"
    by (auto dest!: spec [of _ 1])
  then have cells: "\<forall>f\<in>{1..12}. fretboard d ! 1 ! (f - 1) =
                (Some (noteNamesSharp ! nat ((9 + int f) mod 12)),
                 Some ((9 + int f) mod 12)
                   \<in> set (map (\<lambda>x. parseNoteToSemitone (Some x)) (scale d)))"
    by (simp add: a)
  have c6: "fretboard d ! 1 ! (6 - 1) = (Some (js ''D#''), True)"
    using bspec [OF cells, of 6]
    by (simp add: sc noteNamesSharp_def parseNoteToSemitone_Some_eq js_eval)
  have c7: "fretboard d ! 1 ! (7 - 1) = (Some (js ''E''), False)"
    using bspec [OF cells, of 7]
    by (simp add: sc noteNamesSharp_def parseNoteToSemitone_Some_eq js_eval)
  from d len r1 a c6 c7 show ?thesis
    by blast
qed

text \<open>
  Claim C5. For every root pitch class 0 to 11 both tables have an entry, and the entry
  has exactly 7 note names whose parsed pitch classes are all defined and pairwise
  distinct; the scale list of every successful call is such an entry, with the root
  pitch class in 0..11.
\<close>

theorem scale_seven_distinct:
  "(generateScaleDiagram numStrings tuningArray rootNote scaleType = Inr d \<longrightarrow>
      rootSemitone d \<in> {0..11} \<and> scaleType \<in> {js ''natural'', js ''harmonic''} \<and>
      length (scale d) = 7 \<and>
      None \<notin> set (map (\<lambda>x. parseNoteToSemitone (Some x)) (scale d)) \<and>
      distinct (map (\<lambda>x. parseNoteToSemitone (Some x)) (scale d))) \<and>
   (\<forall>r\<in>{0..11}. \<forall>tbl\<in>{naturalMinorScales, harmonicMinorScales}.
      \<exists>ns. tbl r = Some ns \<and> length ns = 7 \<and>
        None \<notin> set (map (\<lambda>x. parseNoteToSemitone (Some x)) ns) \<and>
        distinct (map (\<lambda>x. parseNoteToSemitone (Some x)) ns))"
proof -
  have succ: "rootSemitone d \<in> {0..11} \<and> scaleType \<in> {js ''natural'', js ''harmonic''} \<and>
      length (scale d) = 7 \<and>
      None \<notin> set (map (\<lambda>x. parseNoteToSemitone (Some x)) (scale d)) \<and>
      distinct (map (\<lambda>x. parseNoteToSemitone (Some x)) (scale d))"
    if "generateScaleDiagram numStrings tuningArray rootNote scaleType = Inr d"
  proof -
    from that obtain r ns fb where
      r: "parseNoteToSemitone (Some rootNote) = Some r"
      and tb: "scaleType = js ''natural'' \<and> naturalMinorScales r = Some ns \<or>
         scaleType \<noteq> js ''natural'' \<and> scaleType = js ''harmonic'' \<and>
         harmonicMinorScales r = Some ns"
      and d: "d = \<lparr>scale = ns, fretboard = fb, rootSemitone = r,
            scaleSemitones = map (\<lambda>x. parseNoteToSemitone (Some x)) ns\<rparr>"
      by (rule generateScaleDiagram_Inr)
    from r have rng: "0 \<le> r" "r < 12"
      using parseNoteToSemitone_range by blast+
    from tb naturalMinorScales_ok [OF rng] harmonicMinorScales_ok [OF rng]
    have "length ns = 7 \<and> None \<notin> set (map (\<lambda>x. parseNoteToSemitone (Some x)) ns) \<and>
          distinct (map (\<lambda>x. parseNoteToSemitone (Some x)) ns)"
      by auto
    moreover have "scaleType \<in> {js ''natural'', js ''harmonic''}"
      using tb by auto
    ultimately show ?thesis
      using rng by (simp add: d)
  qed
  have tbls: "\<exists>ns. tbl r = Some ns \<and> length ns = 7 \<and>
        None \<notin> set (map (\<lambda>x. parseNoteToSemitone (Some x)) ns) \<and>
        distinct (map (\<lambda>x. parseNoteToSemitone (Some x)) ns)"
    if "r \<in> {0..11}" and t: "tbl \<in> {naturalMinorScales, harmonicMinorScales}" for r :: int and tbl
  proof -
    from that have rng: "0 \<le> r" "r < 12"
      by simp_all
    from t naturalMinorScales_ok [OF rng] harmonicMinorScales_ok [OF rng]
    show ?thesis
      by auto
  qed
  from succ tbls show ?thesis
    by blast
qed

theorem scale_seven_distinct_witness:
  "\<exists>d. generateScaleDiagram 4 (map js [''E'', ''A'', ''D'', ''G'']) (js ''F#'') (js ''harmonic'')
         = Inr d \<and>
       length (scale d) = 7 \<and>
       distinct (map (\<lambda>x. parseNoteToSemitone (Some x)) (scale d)) \<and>
       (8::int) \<in> {0..11} \<and>
       (\<exists>ns. naturalMinorScales 8 = Some ns \<and> length ns = 7 \<and>
          distinct (map (\<lambda>x. parseNoteToSemitone (Some x)) ns))"
proof -
  have "\<exists>d. generateScaleDiagram 4 (map js [''E'', ''A'', ''D'', ''G'']) (js ''F#'')
              (js ''harmonic'') = Inr d"
    by (simp add: generateScaleDiagram_def harmonicMinorScales_def parseNoteToSemitone_Some_eq
        js_eval strings_loop.simps Let_def)
  then obtain d where d: "generateScaleDiagram 4 (map js [''E'', ''A'', ''D'', ''G'']) (js ''F#'')
              (js ''harmonic'') = Inr d" ..
  have m: "(8::int) \<in> {0..11}"
    by simp
  from scale_seven_distinct [of 4 "map js [''E'', ''A'', ''D'', ''G'']" "js ''F#''"
      "js ''harmonic''" d] d m
  show ?thesis
    by blast
qed

text \<open>
  Claim C8, as amended. The root note and the scale type are checked before the strings
  are visited, and only the strings \<open>0..numStrings - 1\<close> are visited. When the root note
  parses, the scale type is \<open>natural\<close> or \<open>harmonic\<close>, and the tuning entry of a string
  \<open>s < numStrings\<close> fails note parsing while all entries below \<open>s\<close> parse, the result is
  the single error value that names the text of entry \<open>s\<close>; being an error value, it
  holds no fretboard, so no rows of the strings before \<open>s\<close> are returned.
\<close>

theorem generateScaleDiagram_bad_open_note:
  assumes "parseNoteToSemitone (Some rootNote) \<noteq> None"
    and "scaleType = js ''natural'' \<or> scaleType = js ''harmonic''"
    and "s < numStrings" and "s < length tuningArray"
    and "parseNoteToSemitone (Some (tuningArray ! s)) = None"
    and "\<forall>j<s. parseNoteToSemitone (Some (tuningArray ! j)) \<noteq> None"
  shows "generateScaleDiagram numStrings tuningArray rootNote scaleType
           = Inl (InvalidTuningNote (tuningArray ! s))"
proof -
  from assms(1) obtain r where r: "parseNoteToSemitone (Some rootNote) = Some r"
    by auto
  from generateScaleDiagram_loop [OF r assms(2)] obtain ns where
    g: "generateScaleDiagram numStrings tuningArray rootNote scaleType =
           (case strings_loop numStrings tuningArray (map (\<lambda>x. parseNoteToSemitone (Some x)) ns) 0 [] of
              Inl e \<Rightarrow> Inl e
            | Inr fb \<Rightarrow> Inr \<lparr>scale = ns, fretboard = fb, rootSemitone = r,
                 scaleSemitones = map (\<lambda>x. parseNoteToSemitone (Some x)) ns\<rparr>)"
    by blast
  have "strings_loop numStrings tuningArray (map (\<lambda>x. parseNoteToSemitone (Some x)) ns) 0 []
      = Inl (InvalidTuningNote (template_text (js_index tuningArray (int s))))"
    using assms(3-6) by (intro strings_loop_fail) (simp_all add: js_index_int)
  then show ?thesis
    using assms(4) by (simp add: g js_index_int template_text_def)
qed

theorem generateScaleDiagram_bad_open_note_witness:
  "parseNoteToSemitone (Some (js ''C'')) \<noteq> None \<and>
   (2::nat) < 6 \<and> 2 < length (map js [''E'', ''A'', ''H'', ''G'', ''B'', ''E'']) \<and>
   parseNoteToSemitone (Some (map js [''E'', ''A'', ''H'', ''G'', ''B'', ''E''] ! 2)) = None \<and>
   parseNoteToSemitone (Some (map js [''E'', ''A'', ''H'', ''G'', ''B'', ''E''] ! 0)) \<noteq> None \<and>
   parseNoteToSemitone (Some (map js [''E'', ''A'', ''H'', ''G'', ''B'', ''E''] ! 1)) \<noteq> None \<and>
   generateScaleDiagram 6 (map js [''E'', ''A'', ''H'', ''G'', ''B'', ''E'']) (js ''C'')
     (js ''natural'') = Inl (InvalidTuningNote (js ''H''))"
proof -
  have h1: "parseNoteToSemitone (Some (js ''C'')) \<noteq> None"
    by (simp add: parseNoteToSemitone_Some_eq js_eval)
  have h2: "js ''natural'' = js ''natural'' \<or> js ''natural'' = js ''harmonic''"
    by simp
  have h3: "(2::nat) < 6"
    by simp
  have h4: "2 < length (map js [''E'', ''A'', ''H'', ''G'', ''B'', ''E''])"
    by simp
  have h5: "parseNoteToSemitone (Some (map js [''E'', ''A'', ''H'', ''G'', ''B'', ''E''] ! 2))
      = None"
    by (simp add: parseNoteToSemitone_Some_eq js_eval)
  have h6: "\<forall>j<2. parseNoteToSemitone
      (Some (map js [''E'', ''A'', ''H'', ''G'', ''B'', ''E''] ! j)) \<noteq> None"
  proof (intro allI impI)
    fix j :: nat
    assume "j < 2"
    then consider "j = 0" | "j = 1"
      by linarith
    then show "parseNoteToSemitone
      (Some (map js [''E'', ''A'', ''H'', ''G'', ''B'', ''E''] ! j)) \<noteq> None"
      by cases (simp_all add: parseNoteToSemitone_Some_eq js_eval)
  qed
  have "generateScaleDiagram 6 (map js [''E'', ''A'', ''H'', ''G'', ''B'', ''E'']) (js ''C'')
     (js ''natural'') = Inl (InvalidTuningNote (js ''H''))"
    using generateScaleDiagram_bad_open_note [OF h1 h2 h3 h4 h5 h6] by simp
  moreover have "parseNoteToSemitone
      (Some (map js [''E'', ''A'', ''H'', ''G'', ''B'', ''E''] ! 0)) \<noteq> None"
    by (simp add: parseNoteToSemitone_Some_eq js_eval)
  moreover have "parseNoteToSemitone
      (Some (map js [''E'', ''A'', ''H'', ''G'', ''B'', ''E''] ! 1)) \<noteq> None"
    by (simp add: parseNoteToSemitone_Some_eq js_eval)
  ultimately show ?thesis
    using h1 h3 h4 h5 by blast
qed

text \<open>
  Claim C8 as stated fails. With the unparseable entry \<open>X\<close> at string 0, an unparseable
  root gives the invalid-key error and an unknown scale type gives the
  invalid-scale-type error, neither of which names \<open>X\<close>; and an unparseable entry at
  index 4 of a tuning used with 4 strings is never read, so the call succeeds.
\<close>

theorem generateScaleDiagram_bad_open_note_counterexample:
  "parseNoteToSemitone (Some (map js [''X'', ''A'', ''D'', ''G'', ''B'', ''E''] ! 0)) = None \<and>
   generateScaleDiagram 6 (map js [''X'', ''A'', ''D'', ''G'', ''B'', ''E'']) (js ''H'')
     (js ''natural'') = Inl InvalidKey \<and>
   generateScaleDiagram 6 (map js [''X'', ''A'', ''D'', ''G'', ''B'', ''E'']) (js ''H'')
     (js ''natural'') \<noteq> Inl (InvalidTuningNote (js ''X'')) \<and>
   generateScaleDiagram 6 (map js [''X'', ''A'', ''D'', ''G'', ''B'', ''E'']) (js ''C'')
     (js ''major'') = Inl InvalidScaleType \<and>
   parseNoteToSemitone (Some (map js [''E'', ''A'', ''D'', ''G'', ''X''] ! 4)) = None \<and>
   \<not> isl (generateScaleDiagram 4 (map js [''E'', ''A'', ''D'', ''G'', ''X'']) (js ''C'')
            (js ''natural''))"
  by (simp add: generateScaleDiagram_def naturalMinorScales_def parseNoteToSemitone_Some_eq
      js_eval strings_loop.simps Let_def)

text \<open>
  Claim C10, as amended. \<open>generateScaleDiagram\<close> does not compare the length of the tuning
  with \<open>numStrings\<close>. When the root note parses and the scale type is \<open>natural\<close> or
  \<open>harmonic\<close>: a tuning with fewer entries than \<open>numStrings\<close> gives an
  invalid-tuning-note error, and when all its entries parse, that error is the one of
  the missing entry, whose text is \<open>undefined\<close>. A tuning with at least \<open>numStrings\<close>
  entries gives, for any root and scale type, the result of its first \<open>numStrings\<close>
  entries alone; when these all parse (and the root and scale type are valid) the result
  is a success with exactly \<open>numStrings\<close> rows. The model is total: no call throws.
\<close>

theorem generateScaleDiagram_tuning_length:
  "(parseNoteToSemitone (Some rootNote) \<noteq> None \<and>
    (scaleType = js ''natural'' \<or> scaleType = js ''harmonic'') \<and>
    length tuningArray < numStrings \<longrightarrow>
      (\<exists>txt. generateScaleDiagram numStrings tuningArray rootNote scaleType
               = Inl (InvalidTuningNote txt)) \<and>
      ((\<forall>j<length tuningArray. parseNoteToSemitone (Some (tuningArray ! j)) \<noteq> None) \<longrightarrow>
         generateScaleDiagram numStrings tuningArray rootNote scaleType
           = Inl (InvalidTuningNote (js ''undefined'')))) \<and>
   (numStrings \<le> length tuningArray \<longrightarrow>
      generateScaleDiagram numStrings tuningArray rootNote scaleType
        = generateScaleDiagram numStrings (take numStrings tuningArray) rootNote scaleType) \<and>
   (parseNoteToSemitone (Some rootNote) \<noteq> None \<and>
    (scaleType = js ''natural'' \<or> scaleType = js ''harmonic'') \<and>
    numStrings \<le> length tuningArray \<and>
    (\<forall>j<numStrings. parseNoteToSemitone (Some (tuningArray ! j)) \<noteq> None) \<longrightarrow>
      (\<exists>d. generateScaleDiagram numStrings tuningArray rootNote scaleType = Inr d \<and>
           length (fretboard d) = numStrings))"
proof -
  have shorter: "(\<exists>txt. generateScaleDiagram numStrings tuningArray rootNote scaleType
               = Inl (InvalidTuningNote txt)) \<and>
      ((\<forall>j<length tuningArray. parseNoteToSemitone (Some (tuningArray ! j)) \<noteq> None) \<longrightarrow>
         generateScaleDiagram numStrings tuningArray rootNote scaleType
           = Inl (InvalidTuningNote (js ''undefined'')))"
    if root: "parseNoteToSemitone (Some rootNote) \<noteq> None"
      and st: "scaleType = js ''natural'' \<or> scaleType = js ''harmonic''"
      and len: "length tuningArray < numStrings"
  proof -
    from root obtain r where r: "parseNoteToSemitone (Some rootNote) = Some r"
      by auto
    from generateScaleDiagram_loop [OF r st] obtain ns where
      g: "generateScaleDiagram numStrings tuningArray rootNote scaleType =
           (case strings_loop numStrings tuningArray
                   (map (\<lambda>x. parseNoteToSemitone (Some x)) ns) 0 [] of
              Inl e \<Rightarrow> Inl e
            | Inr fb \<Rightarrow> Inr \<lparr>scale = ns, fretboard = fb, rootSemitone = r,
                 scaleSemitones = map (\<lambda>x. parseNoteToSemitone (Some x)) ns\<rparr>)"
      by blast
    define ss where "ss = map (\<lambda>x. parseNoteToSemitone (Some x)) ns"
    have missing: "parseNoteToSemitone (js_index tuningArray (int (length tuningArray))) = None"
      by (simp add: js_index_int parseNoteToSemitone_def)
    have notInr: "strings_loop numStrings tuningArray ss 0 [] \<noteq> Inr fb" for fb
      using strings_loop_Inr_parses [of numStrings tuningArray ss 0 "[]" fb "length tuningArray"]
        len missing by auto
    then obtain e where e: "strings_loop numStrings tuningArray ss 0 [] = Inl e"
      by (cases "strings_loop numStrings tuningArray ss 0 []") auto
    then obtain msg where "e = InvalidTuningNote msg"
      using strings_loop_Inl by blast
    with e have fst_part: "\<exists>txt. generateScaleDiagram numStrings tuningArray rootNote scaleType
               = Inl (InvalidTuningNote txt)"
      by (simp add: g ss_def [symmetric])
    have snd_part: "generateScaleDiagram numStrings tuningArray rootNote scaleType
           = Inl (InvalidTuningNote (js ''undefined''))"
      if all: "\<forall>j<length tuningArray. parseNoteToSemitone (Some (tuningArray ! j)) \<noteq> None"
    proof -
      have "strings_loop numStrings tuningArray ss 0 []
          = Inl (InvalidTuningNote (template_text (js_index tuningArray (int (length tuningArray)))))"
        using len missing all by (intro strings_loop_fail) (simp_all add: js_index_int)
      then show ?thesis
        by (simp add: g ss_def [symmetric] js_index_int template_text_def)
    qed
    from fst_part snd_part show ?thesis
      by blast
  qed
  have longer: "generateScaleDiagram numStrings tuningArray rootNote scaleType
        = generateScaleDiagram numStrings (take numStrings tuningArray) rootNote scaleType"
    if "numStrings \<le> length tuningArray"
    using that
    by (simp add: generateScaleDiagram_def Let_def strings_loop_take
        cong: option.case_cong sum.case_cong if_cong)
  have succ: "\<exists>d. generateScaleDiagram numStrings tuningArray rootNote scaleType = Inr d \<and>
           length (fretboard d) = numStrings"
    if root: "parseNoteToSemitone (Some rootNote) \<noteq> None"
      and st: "scaleType = js ''natural'' \<or> scaleType = js ''harmonic''"
      and len: "numStrings \<le> length tuningArray"
      and all: "\<forall>j<numStrings. parseNoteToSemitone (Some (tuningArray ! j)) \<noteq> None"
  proof -
    from root obtain r where r: "parseNoteToSemitone (Some rootNote) = Some r"
      by auto
    from generateScaleDiagram_loop [OF r st] obtain ns where
      g: "generateScaleDiagram numStrings tuningArray rootNote scaleType =
           (case strings_loop numStrings tuningArray
                   (map (\<lambda>x. parseNoteToSemitone (Some x)) ns) 0 [] of
              Inl e \<Rightarrow> Inl e
            | Inr fb \<Rightarrow> Inr \<lparr>scale = ns, fretboard = fb, rootSemitone = r,
                 scaleSemitones = map (\<lambda>x. parseNoteToSemitone (Some x)) ns\<rparr>)"
      by blast
    define ss where "ss = map (\<lambda>x. parseNoteToSemitone (Some x)) ns"
    have "strings_loop numStrings tuningArray ss 0 [] =
        Inr ([] @ map (\<lambda>k. frets_loop (the (parseNoteToSemitone (js_index tuningArray (int k))))
                        ss 1 []) [0..<numStrings])"
      using len all by (intro strings_loop_ok) (simp add: js_index_int)
    then show ?thesis
      by (simp add: g ss_def [symmetric])
  qed
  from shorter longer succ show ?thesis
    by blast
qed

theorem generateScaleDiagram_tuning_length_witness:
  "generateScaleDiagram 6 (map js [''E'', ''A'', ''D'', ''G'']) (js ''C'') (js ''harmonic'')
     = Inl (InvalidTuningNote (js ''undefined'')) \<and>
   generateScaleDiagram 4 (map js [''E'', ''A'', ''D'', ''G'', ''X'']) (js ''C'') (js ''natural'')
     = generateScaleDiagram 4 (map js [''E'', ''A'', ''D'', ''G'']) (js ''C'') (js ''natural'') \<and>
   (\<exists>d. generateScaleDiagram 4 (map js [''E'', ''A'', ''D'', ''G'', ''X'']) (js ''C'')
           (js ''natural'') = Inr d \<and> length (fretboard d) = 4)"
proof -
  have root: "parseNoteToSemitone (Some (js ''C'')) \<noteq> None"
    by (simp add: parseNoteToSemitone_Some_eq js_eval)
  have four: "parseNoteToSemitone (Some ((map js [''E'', ''A'', ''D'', ''G''] @ rest) ! j)) \<noteq> None"
    if "j < 4" for j :: nat and rest
  proof -
    from that consider "j = 0" | "j = 1" | "j = 2" | "j = 3"
      by linarith
    then show ?thesis
      by cases (simp_all add: parseNoteToSemitone_Some_eq js_eval)
  qed
  have a4: "\<forall>j<length (map js [''E'', ''A'', ''D'', ''G'']).
      parseNoteToSemitone (Some (map js [''E'', ''A'', ''D'', ''G''] ! j)) \<noteq> None"
    using four [of _ "[]"] by simp
  have a5: "\<forall>j<4. parseNoteToSemitone
      (Some (map js [''E'', ''A'', ''D'', ''G'', ''X''] ! j)) \<noteq> None"
    using four [of _ "[js ''X'']"] by simp
  have l4: "length (map js [''E'', ''A'', ''D'', ''G'']) < 6"
    by simp
  have l5: "4 \<le> length (map js [''E'', ''A'', ''D'', ''G'', ''X''])"
    by simp
  have tk: "take 4 (map js [''E'', ''A'', ''D'', ''G'', ''X'']) = map js [''E'', ''A'', ''D'', ''G'']"
    by simp
  note i1 = generateScaleDiagram_tuning_length
    [of "js ''C''" "js ''harmonic''" "map js [''E'', ''A'', ''D'', ''G'']" 6]
  note i2 = generateScaleDiagram_tuning_length
    [of "js ''C''" "js ''natural''" "map js [''E'', ''A'', ''D'', ''G'', ''X'']" 4]
  from i1 root a4 l4
  have p1: "generateScaleDiagram 6 (map js [''E'', ''A'', ''D'', ''G'']) (js ''C'')
      (js ''harmonic'') = Inl (InvalidTuningNote (js ''undefined''))"
    by blast
  from i2 l5
  have "generateScaleDiagram 4 (map js [''E'', ''A'', ''D'', ''G'', ''X'']) (js ''C'')
       (js ''natural'')
     = generateScaleDiagram 4 (take 4 (map js [''E'', ''A'', ''D'', ''G'', ''X''])) (js ''C'')
         (js ''natural'')"
    by blast
  then have p2: "generateScaleDiagram 4 (map js [''E'', ''A'', ''D'', ''G'', ''X'']) (js ''C'')
       (js ''natural'')
     = generateScaleDiagram 4 (map js [''E'', ''A'', ''D'', ''G'']) (js ''C'') (js ''natural'')"
    by (simp only: tk)
  from i2 root a5 l5
  have p3: "\<exists>d. generateScaleDiagram 4 (map js [''E'', ''A'', ''D'', ''G'', ''X'']) (js ''C'')
           (js ''natural'') = Inr d \<and> length (fretboard d) = 4"
    by blast
  from p1 p2 p3 show ?thesis
    by blast
qed

text \<open>
  Claim C10 as stated fails. A tuning with 4 entries for 6 strings and an unparseable
  root gives the invalid-key error, not the invalid-tuning-note error; a tuning with 5
  entries for 4 strings whose first entry does not parse gives an error, not a success.
\<close>

theorem generateScaleDiagram_tuning_length_counterexample:
  "length (map js [''E'', ''A'', ''D'', ''G'']) < 6 \<and>
   generateScaleDiagram 6 (map js [''E'', ''A'', ''D'', ''G'']) (js ''H'') (js ''harmonic'')
     = Inl InvalidKey \<and>
   4 < length (map js [''X'', ''A'', ''D'', ''G'', ''B'']) \<and>
   generateScaleDiagram 4 (map js [''X'', ''A'', ''D'', ''G'', ''B'']) (js ''C'') (js ''natural'')
     = Inl (InvalidTuningNote (js ''X''))"
  by (simp add: generateScaleDiagram_def naturalMinorScales_def parseNoteToSemitone_Some_eq
      js_eval strings_loop.simps Let_def template_text_def)

section \<open>Properties of the tuning resolver\<close>

text \<open>
  Claim C6. When the trimmed input starts with \<open>drop\<close> in any case followed by white
  space, it has at least two tokens, and for a string count with a registered standard
  tuning (these are exactly 4 to 8) \<open>parseTuning\<close> returns that tuning with index 0
  replaced by the normalised second token (upper-cased by the built-in, then flat sign
  to \<open>b\<close> and sharp sign to \<open>#\<close>) and every other entry unchanged; for a string count
  with no registered tuning it returns the invalid marker. This holds whatever the
  built-in upper-casing does to the token. With an upper-casing that is the Basic Latin
  mapping on Basic Latin text and the accidental signs, \<open>parseTuning("Drop D", 6)\<close> is
  D A D G B E, a flat sign after \<open>e\<close> gives \<open>Eb\<close>, a sharp sign after \<open>c\<close> gives \<open>C#\<close>,
  and the letter \<open>b\<close> after \<open>e\<close> gives \<open>EB\<close>.
\<close>

theorem parseTuning_drop_form:
  assumes "test_drop (trim input)"
  shows "2 \<le> length (split_ws (trim input)) \<and>
     (let dropNote = replaceAll sharp_sign (ch CHR ''#'')
            (replaceAll flat_sign (ch CHR ''b'') (upper (split_ws (trim input) ! 1)))
      in \<forall>base. standardTunings numStrings = Some base \<longrightarrow>
           (\<exists>res. parseTuning upper (Some input) numStrings = Some res \<and>
              res = base[0 := dropNote] \<and> length res = length base \<and> res ! 0 = dropNote \<and>
              (\<forall>i. 0 < i \<and> i < length base \<longrightarrow> res ! i = base ! i))) \<and>
     (standardTunings numStrings = None \<longrightarrow> parseTuning upper (Some input) numStrings = None) \<and>
     (standardTunings numStrings \<noteq> None \<longleftrightarrow> 4 \<le> numStrings \<and> numStrings \<le> 8) \<and>
     (latin_upper upper \<longrightarrow>
        parseTuning upper (Some (js ''Drop D'')) 6
          = Some (map js [''D'', ''A'', ''D'', ''G'', ''B'', ''E'']) \<and>
        parseTuning upper (Some (js ''drop e'' @ [flat_sign])) 6
          = Some (map js [''Eb'', ''A'', ''D'', ''G'', ''B'', ''E'']) \<and>
        parseTuning upper (Some (js ''drop c'' @ [sharp_sign])) 6
          = Some (map js [''C#'', ''A'', ''D'', ''G'', ''B'', ''E'']) \<and>
        parseTuning upper (Some (js ''drop eb'')) 6
          = Some (map js [''EB'', ''A'', ''D'', ''G'', ''B'', ''E'']))"
proof -
  define dropNote where "dropNote = replaceAll sharp_sign (ch CHR ''#'')
            (replaceAll flat_sign (ch CHR ''b'') (upper (split_ws (trim input) ! 1)))"
  have eq: "parseTuning upper (Some input) numStrings =
      map_option (\<lambda>baseTuning. assign0 baseTuning dropNote) (standardTunings numStrings)"
    unfolding dropNote_def using assms by (rule parseTuning_drop_eq)
  have reg: "\<exists>res. parseTuning upper (Some input) numStrings = Some res \<and>
              res = base[0 := dropNote] \<and> length res = length base \<and> res ! 0 = dropNote \<and>
              (\<forall>i. 0 < i \<and> i < length base \<longrightarrow> res ! i = base ! i)"
    if b: "standardTunings numStrings = Some base" for base
  proof -
    from standardTunings_assign0 [OF b] have ne: "base \<noteq> []"
      and as: "assign0 base dropNote = base[0 := dropNote]"
      by blast+
    have "parseTuning upper (Some input) numStrings = Some (base[0 := dropNote])"
      by (simp add: eq b as)
    then show ?thesis
      using ne by simp
  qed
  have unreg: "parseTuning upper (Some input) numStrings = None"
    if "standardTunings numStrings = None"
    using that by (simp add: eq)
  have ex: "parseTuning upper (Some (js ''Drop D'')) 6
          = Some (map js [''D'', ''A'', ''D'', ''G'', ''B'', ''E'']) \<and>
        parseTuning upper (Some (js ''drop e'' @ [flat_sign])) 6
          = Some (map js [''Eb'', ''A'', ''D'', ''G'', ''B'', ''E'']) \<and>
        parseTuning upper (Some (js ''drop c'' @ [sharp_sign])) 6
          = Some (map js [''C#'', ''A'', ''D'', ''G'', ''B'', ''E'']) \<and>
        parseTuning upper (Some (js ''drop eb'')) 6
          = Some (map js [''EB'', ''A'', ''D'', ''G'', ''B'', ''E''])"
    if lu: "latin_upper upper"
  proof -
    have "parseTuning upper (Some (js ''Drop D'')) 6
        = parseTuning toUpperCase (Some (js ''Drop D'')) 6"
      using lu by (rule parseTuning_latin) (simp add: js_def ch_def)
    then have e1: "parseTuning upper (Some (js ''Drop D'')) 6
          = Some (map js [''D'', ''A'', ''D'', ''G'', ''B'', ''E''])"
      by (simp add: parseTuning_def js_eval tuning_eval)
    have "parseTuning upper (Some (js ''drop e'' @ [flat_sign])) 6
        = parseTuning toUpperCase (Some (js ''drop e'' @ [flat_sign])) 6"
      using lu by (rule parseTuning_latin) (simp add: js_def ch_def)
    then have e2: "parseTuning upper (Some (js ''drop e'' @ [flat_sign])) 6
          = Some (map js [''Eb'', ''A'', ''D'', ''G'', ''B'', ''E''])"
      by (simp add: parseTuning_def js_eval tuning_eval)
    have "parseTuning upper (Some (js ''drop c'' @ [sharp_sign])) 6
        = parseTuning toUpperCase (Some (js ''drop c'' @ [sharp_sign])) 6"
      using lu by (rule parseTuning_latin) (simp add: js_def ch_def)
    then have e3: "parseTuning upper (Some (js ''drop c'' @ [sharp_sign])) 6
          = Some (map js [''C#'', ''A'', ''D'', ''G'', ''B'', ''E''])"
      by (simp add: parseTuning_def js_eval tuning_eval)
    have "parseTuning upper (Some (js ''drop eb'')) 6
        = parseTuning toUpperCase (Some (js ''drop eb'')) 6"
      using lu by (rule parseTuning_latin) (simp add: js_def ch_def)
    then have e4: "parseTuning upper (Some (js ''drop eb'')) 6
          = Some (map js [''EB'', ''A'', ''D'', ''G'', ''B'', ''E''])"
      by (simp add: parseTuning_def js_eval tuning_eval)
    from e1 e2 e3 e4 show ?thesis
      by (intro conjI)
  qed
  from test_drop_parts [OF assms] reg unreg standardTunings_dom [of numStrings] ex
  show ?thesis
    unfolding Let_def dropNote_def [symmetric] by blast
qed

theorem parseTuning_drop_form_witness:
  "test_drop (trim (js '' dRoP  e'' @ [flat_sign] @ js '' '')) \<and>
   standardTunings 5 = Some (map js [''B'', ''E'', ''A'', ''D'', ''G'']) \<and>
   parseTuning toUpperCase (Some (js '' dRoP  e'' @ [flat_sign] @ js '' '')) 5
     = Some (map js [''Eb'', ''E'', ''A'', ''D'', ''G'']) \<and>
   standardTunings 9 = None \<and>
   parseTuning toUpperCase (Some (js '' dRoP  e'' @ [flat_sign] @ js '' '')) 9 = None \<and>
   latin_upper toUpperCase \<and>
   parseTuning toUpperCase (Some (js ''Drop D'')) 6
     = Some (map js [''D'', ''A'', ''D'', ''G'', ''B'', ''E'']) \<and>
   test_drop (trim (js ''Drop '' @ [233])) \<and>
   parseTuning (\<lambda>s. if s = [233] then [201] else toUpperCase s) (Some (js ''Drop '' @ [233])) 6
     = Some ([201] # map js [''A'', ''D'', ''G'', ''B'', ''E''])"
proof -
  let ?inp = "js '' dRoP  e'' @ [flat_sign] @ js '' ''"
  let ?up = "\<lambda>s::jsstring. if s = [233] then [201] else toUpperCase s"
  have h: "test_drop (trim ?inp)"
    by (simp add: js_eval)
  have s5: "standardTunings 5 = Some (map js [''B'', ''E'', ''A'', ''D'', ''G''])"
    by (simp add: standardTunings_def)
  have s6: "standardTunings 6 = Some (map js [''E'', ''A'', ''D'', ''G'', ''B'', ''E''])"
    by (simp add: standardTunings_def)
  have s9: "standardTunings 9 = None"
    by (simp add: standardTunings_def)
  have tok: "split_ws (trim ?inp) ! 1 = js ''e'' @ [flat_sign]"
    by (simp add: js_eval split_ws.simps)
  have nrm: "replaceAll sharp_sign (ch CHR ''#'')
       (replaceAll flat_sign (ch CHR ''b'') (toUpperCase (js ''e'' @ [flat_sign]))) = js ''Eb''"
    by (simp add: js_eval)
  from parseTuning_drop_form [OF h, of toUpperCase 5] s5
  have "parseTuning toUpperCase (Some ?inp) 5
      = Some ((map js [''B'', ''E'', ''A'', ''D'', ''G''])
          [0 := replaceAll sharp_sign (ch CHR ''#'') (replaceAll flat_sign (ch CHR ''b'')
                  (toUpperCase (split_ws (trim ?inp) ! 1)))])"
    unfolding Let_def by blast
  then have p5: "parseTuning toUpperCase (Some ?inp) 5
      = Some ((map js [''B'', ''E'', ''A'', ''D'', ''G''])[0 := js ''Eb''])"
    by (simp only: tok nrm)
  from parseTuning_drop_form [OF h, of toUpperCase 9] s9
  have p9: "parseTuning toUpperCase (Some ?inp) 9 = None"
    by blast
  have lu: "latin_upper toUpperCase"
    by (rule latin_upper_toUpperCase)
  from parseTuning_drop_form [OF h, of toUpperCase 5] lu
  have p6: "parseTuning toUpperCase (Some (js ''Drop D'')) 6
     = Some (map js [''D'', ''A'', ''D'', ''G'', ''B'', ''E''])"
    by blast
  have h2: "test_drop (trim (js ''Drop '' @ [233]))"
    by (simp add: js_eval)
  have tok2: "split_ws (trim (js ''Drop '' @ [233])) ! 1 = [233]"
    by (simp add: js_eval split_ws.simps)
  have nrm2: "replaceAll sharp_sign (ch CHR ''#'')
       (replaceAll flat_sign (ch CHR ''b'') (?up [233])) = [201]"
    by (simp add: js_eval)
  from parseTuning_drop_form [OF h2, of ?up 6] s6
  have "parseTuning ?up (Some (js ''Drop '' @ [233])) 6
      = Some ((map js [''E'', ''A'', ''D'', ''G'', ''B'', ''E''])
          [0 := replaceAll sharp_sign (ch CHR ''#'') (replaceAll flat_sign (ch CHR ''b'')
                  (?up (split_ws (trim (js ''Drop '' @ [233])) ! 1)))])"
    unfolding Let_def by blast
  then have p7: "parseTuning ?up (Some (js ''Drop '' @ [233])) 6
      = Some ((map js [''E'', ''A'', ''D'', ''G'', ''B'', ''E''])[0 := [201]])"
    unfolding tok2 nrm2 .
  from h s5 s9 p5 p9 lu p6 h2 p7 show ?thesis
    by simp
qed

text \<open>
  Claim C7. \<open>parseTuning\<close> is total and returns the invalid marker for a missing input,
  for the empty input, for a Drop-form input when no standard tuning is registered for
  the string count, for a Drop form with fewer than two tokens, and for an explicit
  input whose number of tokens differs from the string count; none of this depends on
  the built-in upper-casing. An input that passes the Drop-form test always has at
  least two tokens, so the Drop form with fewer than two tokens is the word \<open>drop\<close>
  alone, in any case: it is read as an explicit list of one token and is invalid for
  every string count other than 1, in particular for 4 to 8. With an upper-casing that
  is the Basic Latin mapping on Basic Latin text, \<open>parseTuning("E A D G B E", 6)\<close> is
  E A D G B E; \<open>parseTuning("E A D G", 6)\<close> is invalid.
\<close>

theorem parseTuning_invalid:
  "parseTuning upper None numStrings = None \<and>
   parseTuning upper (Some []) numStrings = None \<and>
   (test_drop (trim input) \<and> standardTunings numStrings = None \<longrightarrow>
      parseTuning upper (Some input) numStrings = None) \<and>
   (test_drop (trim input) \<longrightarrow> 2 \<le> length (split_ws (trim input))) \<and>
   (toUpperCase (trim input) = js ''DROP'' \<and> numStrings \<noteq> 1 \<longrightarrow>
      length (split_ws (trim input)) < 2 \<and> parseTuning upper (Some input) numStrings = None) \<and>
   (\<not> test_drop (trim input) \<and>
    length (filter (\<lambda>t. t \<noteq> []) (split_ws (trim input))) \<noteq> numStrings \<longrightarrow>
      parseTuning upper (Some input) numStrings = None) \<and>
   (latin_upper upper \<longrightarrow>
      parseTuning upper (Some (js ''E A D G B E'')) 6
        = Some (map js [''E'', ''A'', ''D'', ''G'', ''B'', ''E''])) \<and>
   parseTuning upper (Some (js ''E A D G'')) 6 = None"
proof -
  have p1: "parseTuning upper None numStrings = None"
    by (simp add: parseTuning_def)
  have p2: "parseTuning upper (Some []) numStrings = None"
    by (simp add: parseTuning_def)
  have p3: "parseTuning upper (Some input) numStrings = None"
    if "test_drop (trim input)" "standardTunings numStrings = None"
    using that by (simp add: parseTuning_drop_eq)
  have p5: "parseTuning upper (Some input) numStrings = None"
    if nd: "\<not> test_drop (trim input)"
      and len: "length (filter (\<lambda>t. t \<noteq> []) (split_ws (trim input))) \<noteq> numStrings"
  proof (cases "input = []")
    case True
    then show ?thesis by (simp add: p2)
  next
    case False
    then show ?thesis
      using nd len by (simp add: parseTuning_explicit_eq Let_def)
  qed
  have p4: "length (split_ws (trim input)) < 2 \<and> parseTuning upper (Some input) numStrings = None"
    if up: "toUpperCase (trim input) = js ''DROP''" and n1: "numStrings \<noteq> 1"
  proof -
    from up obtain c1 c2 c3 c4 where t: "trim input = [c1, c2, c3, c4]"
      and cs: "toUpperChar c1 = ch CHR ''D''" "toUpperChar c2 = ch CHR ''R''"
        "toUpperChar c3 = ch CHR ''O''" "toUpperChar c4 = ch CHR ''P''"
      by (auto simp: toUpperCase_def js_def map_eq_Cons_conv)
    from cs have nws: "\<forall>c\<in>set (trim input). \<not> isWhiteSpace c"
      by (simp add: t toUpperChar_letter)
    then have sp: "split_ws (trim input) = [trim input]"
      by (rule split_ws_single)
    have nd: "\<not> test_drop (trim input)"
      by (simp add: t)
    have "filter (\<lambda>t. t \<noteq> []) (split_ws (trim input)) = [trim input]"
      unfolding sp by (simp add: t)
    then have "length (filter (\<lambda>t. t \<noteq> []) (split_ws (trim input))) \<noteq> numStrings"
      using n1 by simp
    with nd have "parseTuning upper (Some input) numStrings = None"
      by (rule p5)
    then show ?thesis
      by (simp add: sp)
  qed
  have e1: "parseTuning upper (Some (js ''E A D G B E'')) 6
     = Some (map js [''E'', ''A'', ''D'', ''G'', ''B'', ''E''])" if lu: "latin_upper upper"
  proof -
    have "parseTuning upper (Some (js ''E A D G B E'')) 6
        = parseTuning toUpperCase (Some (js ''E A D G B E'')) 6"
      using lu by (rule parseTuning_latin) (simp add: js_def ch_def)
    then show ?thesis
      by (simp add: parseTuning_def js_eval tuning_eval)
  qed
  have e2: "parseTuning upper (Some (js ''E A D G'')) 6 = None"
    by (simp add: parseTuning_def js_eval tuning_eval)
  from p3 have q3: "test_drop (trim input) \<and> standardTunings numStrings = None \<longrightarrow>
      parseTuning upper (Some input) numStrings = None"
    by simp
  from p4 have q4: "toUpperCase (trim input) = js ''DROP'' \<and> numStrings \<noteq> 1 \<longrightarrow>
      length (split_ws (trim input)) < 2 \<and> parseTuning upper (Some input) numStrings = None"
    by simp
  from p5 have q5: "\<not> test_drop (trim input) \<and>
    length (filter (\<lambda>t. t \<noteq> []) (split_ws (trim input))) \<noteq> numStrings \<longrightarrow>
      parseTuning upper (Some input) numStrings = None"
    by simp
  have q0: "test_drop (trim input) \<longrightarrow> 2 \<le> length (split_ws (trim input))"
    by (simp add: test_drop_parts)
  from e1 have q6: "latin_upper upper \<longrightarrow>
      parseTuning upper (Some (js ''E A D G B E'')) 6
        = Some (map js [''E'', ''A'', ''D'', ''G'', ''B'', ''E''])"
    by simp
  from p1 p2 q3 q0 q4 q5 q6 e2 show ?thesis
    by (intro conjI)
qed

theorem parseTuning_invalid_witness:
  "test_drop (trim (js ''drop C#'')) \<and> standardTunings 3 = None \<and>
   parseTuning toUpperCase (Some (js ''drop C#'')) 3 = None \<and>
   toUpperCase (trim (js '' Drop '')) = js ''DROP'' \<and> (6::nat) \<noteq> 1 \<and>
   parseTuning toUpperCase (Some (js '' Drop '')) 6 = None \<and>
   \<not> test_drop (trim (js ''D A  D G B E A'')) \<and>
   length (filter (\<lambda>t. t \<noteq> []) (split_ws (trim (js ''D A  D G B E A'')))) \<noteq> 6 \<and>
   parseTuning toUpperCase (Some (js ''D A  D G B E A'')) 6 = None \<and>
   latin_upper toUpperCase \<and>
   parseTuning toUpperCase (Some (js ''E A D G B E'')) 6
     = Some (map js [''E'', ''A'', ''D'', ''G'', ''B'', ''E''])"
proof -
  have a1: "test_drop (trim (js ''drop C#''))"
    by (simp add: js_eval)
  have a2: "standardTunings 3 = None"
    by (simp add: standardTunings_def)
  have b1: "toUpperCase (trim (js '' Drop '')) = js ''DROP''"
    by (simp add: js_eval)
  have b2: "(6::nat) \<noteq> 1"
    by simp
  have c1: "\<not> test_drop (trim (js ''D A  D G B E A''))"
    by (simp add: js_eval)
  have c2: "length (filter (\<lambda>t. t \<noteq> []) (split_ws (trim (js ''D A  D G B E A'')))) \<noteq> 6"
    by (simp add: js_eval split_ws.simps)
  have lu: "latin_upper toUpperCase"
    by (rule latin_upper_toUpperCase)
  from parseTuning_invalid [of toUpperCase 3 "js ''drop C#''"] a1 a2
  have r1: "parseTuning toUpperCase (Some (js ''drop C#'')) 3 = None"
    by blast
  from parseTuning_invalid [of toUpperCase 6 "js '' Drop ''"] b1 b2
  have r2: "parseTuning toUpperCase (Some (js '' Drop '')) 6 = None"
    by blast
  from parseTuning_invalid [of toUpperCase 6 "js ''D A  D G B E A''"] c1 c2
  have r3: "parseTuning toUpperCase (Some (js ''D A  D G B E A'')) 6 = None"
    by blast
  from parseTuning_invalid [of toUpperCase 6 "js ''D A  D G B E A''"] lu
  have r4: "parseTuning toUpperCase (Some (js ''E A D G B E'')) 6
     = Some (map js [''E'', ''A'', ''D'', ''G'', ''B'', ''E''])"
    by blast
  from a1 a2 b1 b2 c1 c2 r1 r2 r3 lu r4 show ?thesis
    by blast
qed

text \<open>
  Claim C9. In Drop form \<open>parseTuning\<close> never checks the drop note and reads only the
  second token. For every Drop-form input and every string count 4 to 8 it returns the
  standard tuning with the normalised second token at index 0, whatever that token is
  and whatever the built-in upper-casing makes of it; two Drop-form inputs with the same
  second token give the same result. With an upper-casing that is the Basic Latin
  mapping on Basic Latin text, for 4 to 8 strings \<open>"Drop X"\<close> gives the standard tuning
  with \<open>X\<close> at index 0 although \<open>X\<close> is not a note name, and \<open>"Drop D foo bar"\<close> gives
  what \<open>"Drop D"\<close> gives.
\<close>

theorem parseTuning_drop_unchecked:
  "(test_drop (trim a) \<and> 4 \<le> numStrings \<and> numStrings \<le> 8 \<longrightarrow>
      (\<exists>base. standardTunings numStrings = Some base \<and>
         parseTuning upper (Some a) numStrings
           = Some (base[0 := replaceAll sharp_sign (ch CHR ''#'')
                 (replaceAll flat_sign (ch CHR ''b'') (upper (split_ws (trim a) ! 1)))]))) \<and>
   (test_drop (trim a) \<and> test_drop (trim b) \<and> split_ws (trim a) ! 1 = split_ws (trim b) ! 1 \<longrightarrow>
      parseTuning upper (Some a) numStrings = parseTuning upper (Some b) numStrings) \<and>
   parseNoteToSemitone (Some (js ''X'')) = None \<and>
   (latin_upper upper \<longrightarrow>
      (\<forall>n\<in>{4..8}. \<exists>base. standardTunings n = Some base \<and>
         parseTuning upper (Some (js ''Drop X'')) n = Some (base[0 := js ''X'']) \<and>
         parseTuning upper (Some (js ''Drop D'')) n = Some (base[0 := js ''D'']) \<and>
         parseTuning upper (Some (js ''Drop D foo bar'')) n = Some (base[0 := js ''D''])))"
proof -
  have gen: "\<exists>base. standardTunings n = Some base \<and>
         parseTuning u (Some x) n
           = Some (base[0 := replaceAll sharp_sign (ch CHR ''#'')
                 (replaceAll flat_sign (ch CHR ''b'') (u (split_ws (trim x) ! 1)))])"
    if td: "test_drop (trim x)" and n: "4 \<le> n" "n \<le> 8" for x n u
  proof -
    from n obtain base where b: "standardTunings n = Some base"
      using standardTunings_dom [of n] by auto
    then show ?thesis
      using standardTunings_assign0 [OF b] by (simp add: parseTuning_drop_eq [OF td])
  qed
  have same: "parseTuning upper (Some a) numStrings = parseTuning upper (Some b) numStrings"
    if "test_drop (trim a)" "test_drop (trim b)"
      "split_ws (trim a) ! 1 = split_ws (trim b) ! 1"
    using that by (simp add: parseTuning_drop_eq)
  have x: "parseNoteToSemitone (Some (js ''X'')) = None"
    by (simp add: parseNoteToSemitone_Some_eq js_eval)
  have tx: "test_drop (trim (js ''Drop X''))" "test_drop (trim (js ''Drop D''))"
    "test_drop (trim (js ''Drop D foo bar''))"
    by (simp_all add: js_eval)
  have kx: "replaceAll sharp_sign (ch CHR ''#'') (replaceAll flat_sign (ch CHR ''b'')
        (toUpperCase (split_ws (trim (js ''Drop X'')) ! 1))) = js ''X''"
    by (simp add: js_eval split_ws.simps)
  have kd: "replaceAll sharp_sign (ch CHR ''#'') (replaceAll flat_sign (ch CHR ''b'')
        (toUpperCase (split_ws (trim (js ''Drop D'')) ! 1))) = js ''D''"
    by (simp add: js_eval split_ws.simps)
  have kf: "replaceAll sharp_sign (ch CHR ''#'') (replaceAll flat_sign (ch CHR ''b'')
        (toUpperCase (split_ws (trim (js ''Drop D foo bar'')) ! 1))) = js ''D''"
    by (simp add: js_eval split_ws.simps)
  have exs: "\<exists>base. standardTunings n = Some base \<and>
      parseTuning upper (Some (js ''Drop X'')) n = Some (base[0 := js ''X'']) \<and>
      parseTuning upper (Some (js ''Drop D'')) n = Some (base[0 := js ''D'']) \<and>
      parseTuning upper (Some (js ''Drop D foo bar'')) n = Some (base[0 := js ''D''])"
    if lu: "latin_upper upper" and "n \<in> {4..8}" for n
  proof -
    from that have n: "4 \<le> n" "n \<le> 8"
      by simp_all
    have l1: "parseTuning upper (Some (js ''Drop X'')) n
        = parseTuning toUpperCase (Some (js ''Drop X'')) n"
      using lu by (rule parseTuning_latin) (simp add: js_def ch_def)
    have l2: "parseTuning upper (Some (js ''Drop D'')) n
        = parseTuning toUpperCase (Some (js ''Drop D'')) n"
      using lu by (rule parseTuning_latin) (simp add: js_def ch_def)
    have l3: "parseTuning upper (Some (js ''Drop D foo bar'')) n
        = parseTuning toUpperCase (Some (js ''Drop D foo bar'')) n"
      using lu by (rule parseTuning_latin) (simp add: js_def ch_def)
    from gen [OF tx(1) n, of toUpperCase] gen [OF tx(2) n, of toUpperCase]
      gen [OF tx(3) n, of toUpperCase]
    show ?thesis
      unfolding kx kd kf l1 l2 l3 by auto
  qed
  from gen [of a numStrings upper] same x exs show ?thesis
    by blast
qed

theorem parseTuning_drop_unchecked_witness:
  "test_drop (trim (js ''DROP h7 E''))  \<and> test_drop (trim (js ''drop   h7'')) \<and>
   split_ws (trim (js ''DROP h7 E'')) ! 1 = split_ws (trim (js ''drop   h7'')) ! 1 \<and>
   parseNoteToSemitone (Some (js ''h7'')) = None \<and>
   parseTuning toUpperCase (Some (js ''DROP h7 E'')) 4
     = Some (map js [''H7'', ''A'', ''D'', ''G'']) \<and>
   parseTuning toUpperCase (Some (js ''DROP h7 E'')) 4
     = parseTuning toUpperCase (Some (js ''drop   h7'')) 4 \<and>
   latin_upper toUpperCase \<and>
   parseTuning toUpperCase (Some (js ''Drop X'')) 4 = Some (map js [''X'', ''A'', ''D'', ''G'']) \<and>
   test_drop (trim (js ''Drop '' @ [223])) \<and>
   parseTuning (\<lambda>s. if s = [223] then js ''SS'' else toUpperCase s)
       (Some (js ''Drop '' @ [223])) 4
     = Some (map js [''SS'', ''A'', ''D'', ''G''])"
proof -
  let ?up = "\<lambda>s::jsstring. if s = [223] then js ''SS'' else toUpperCase s"
  have a: "test_drop (trim (js ''DROP h7 E''))"
    by (simp add: js_eval)
  have b: "test_drop (trim (js ''drop   h7''))"
    by (simp add: js_eval)
  have ta: "split_ws (trim (js ''DROP h7 E'')) ! 1 = js ''h7''"
    by (simp add: js_eval split_ws.simps)
  have tb: "split_ws (trim (js ''drop   h7'')) ! 1 = js ''h7''"
    by (simp add: js_eval split_ws.simps)
  have h: "parseNoteToSemitone (Some (js ''h7'')) = None"
    by (simp add: parseNoteToSemitone_Some_eq js_eval)
  have s4: "standardTunings 4 = Some (map js [''E'', ''A'', ''D'', ''G''])"
    by (simp add: standardTunings_def)
  have nrm: "replaceAll sharp_sign (ch CHR ''#'')
       (replaceAll flat_sign (ch CHR ''b'') (toUpperCase (js ''h7''))) = js ''H7''"
    by (simp add: js_eval)
  have lu: "latin_upper toUpperCase"
    by (rule latin_upper_toUpperCase)
  note inst = parseTuning_drop_unchecked
    [of "js ''DROP h7 E''" 4 toUpperCase "js ''drop   h7''"]
  from inst a have "\<exists>base. standardTunings 4 = Some base \<and>
         parseTuning toUpperCase (Some (js ''DROP h7 E'')) 4
           = Some (base[0 := replaceAll sharp_sign (ch CHR ''#'')
                 (replaceAll flat_sign (ch CHR ''b'')
                    (toUpperCase (split_ws (trim (js ''DROP h7 E'')) ! 1)))])"
    by simp
  then have r1: "parseTuning toUpperCase (Some (js ''DROP h7 E'')) 4
      = Some (map js [''H7'', ''A'', ''D'', ''G''])"
    unfolding ta nrm by (simp add: s4)
  from inst a b ta tb
  have r2: "parseTuning toUpperCase (Some (js ''DROP h7 E'')) 4
      = parseTuning toUpperCase (Some (js ''drop   h7'')) 4"
    by simp
  have m: "(4::nat) \<in> {4..8}"
    by simp
  from inst lu m have "\<exists>base. standardTunings 4 = Some base \<and>
         parseTuning toUpperCase (Some (js ''Drop X'')) 4 = Some (base[0 := js ''X''])"
    by blast
  then have r3: "parseTuning toUpperCase (Some (js ''Drop X'')) 4
      = Some (map js [''X'', ''A'', ''D'', ''G''])"
    by (simp add: s4)
  have c: "test_drop (trim (js ''Drop '' @ [223]))"
    by (simp add: js_eval)
  have tc: "split_ws (trim (js ''Drop '' @ [223])) ! 1 = [223]"
    by (simp add: js_eval split_ws.simps)
  have nrm2: "replaceAll sharp_sign (ch CHR ''#'')
       (replaceAll flat_sign (ch CHR ''b'') (?up [223])) = js ''SS''"
    by (simp add: js_eval)
  from parseTuning_drop_unchecked [of "js ''Drop '' @ [223]" 4 ?up "js ''Drop '' @ [223]"] c
  have "\<exists>base. standardTunings 4 = Some base \<and>
         parseTuning ?up (Some (js ''Drop '' @ [223])) 4
           = Some (base[0 := replaceAll sharp_sign (ch CHR ''#'')
                 (replaceAll flat_sign (ch CHR ''b'')
                    (?up (split_ws (trim (js ''Drop '' @ [223])) ! 1)))])"
    by simp
  then have r4: "parseTuning ?up (Some (js ''Drop '' @ [223])) 4
      = Some (map js [''SS'', ''A'', ''D'', ''G''])"
    unfolding tc nrm2 by (simp add: s4)
  from a b ta tb h r1 r2 lu r3 c r4 show ?thesis
    by simp
qed

end
